theory Spec2Isabelle
  imports Main "HOL-Library.List_Lexorder" "HOL-Library.Signed_Division" "HOL-Library.Multiset"
begin

section \<open>Strings\<close>

text \<open>
  A Go string is modelled by the sequence of its Unicode code points (the result of
  \<^verbatim>\<open>[]rune(s)\<close> on valid UTF-8). \<^verbatim>\<open>strings.TrimSpace\<close> and the cell writer of the
  renderer work on runes, and on valid UTF-8 the byte-wise comparison \<^verbatim>\<open><\<close> of Go is the
  lexicographic comparison of the code point sequences, which is the order that
  \<open>List_Lexorder\<close> puts on \<open>rune list\<close>.
\<close>

type_synonym rune = nat
type_synonym gostring = "rune list"

definition str :: "string \<Rightarrow> gostring" where
  "str s = map of_char s"

text \<open>\<^verbatim>\<open>unicode.IsSpace\<close>: the Latin-1 cases, then the White_Space table.\<close>

definition isSpace :: "rune \<Rightarrow> bool" where
  "isSpace r =
     (if r \<le> 255 then r = 9 \<or> r = 10 \<or> r = 11 \<or> r = 12 \<or> r = 13 \<or> r = 32 \<or> r = 133 \<or> r = 160
      else r = 5760 \<or> (8192 \<le> r \<and> r \<le> 8202) \<or> r = 8232 \<or> r = 8233 \<or> r = 8239
           \<or> r = 8287 \<or> r = 12288)"

text \<open>\<^verbatim>\<open>strings.TrimSpace(s)\<close> is \<^verbatim>\<open>TrimFunc(s, unicode.IsSpace)\<close>: leading, then trailing.\<close>

definition TrimSpace :: "gostring \<Rightarrow> gostring" where
  "TrimSpace s = rev (dropWhile isSpace (rev (dropWhile isSpace s)))"

text \<open>\<^verbatim>\<open>strings.Join(elems, sep)\<close>.\<close>

fun Join :: "gostring list \<Rightarrow> gostring \<Rightarrow> gostring" where
  "Join [] sep = []"
| "Join [x] sep = x"
| "Join (x # y # ys) sep = x @ sep @ Join (y # ys) sep"

text \<open>The verb \<^verbatim>\<open>%d\<close> of \<^verbatim>\<open>fmt.Sprintf\<close> on a length (never negative).\<close>

fun itoa :: "nat \<Rightarrow> gostring" where
  "itoa n = (if n < 10 then [48 + n] else itoa (n div 10) @ [48 + n mod 10])"

declare itoa.simps [simp del]

section \<open>The log ring buffer\<close>

text \<open>
  Modelled from the spec: \<^verbatim>\<open>util.StringRingBuffer\<close> (package \<^verbatim>\<open>pkg/util\<close>) is used by the
  dashboard but its source is not part of the files at hand. The spec, section 3:
  capacity N; \<^verbatim>\<open>push(line)\<close> appends, evicting the oldest line if full; \<^verbatim>\<open>peek(k)\<close> returns
  up to the last \<^verbatim>\<open>min(k, size)\<close> lines in original arrival order, without mutating the buffer.
\<close>

record StringRingBuffer =
  capacity :: nat
  contents :: "gostring list"

definition CreateStringRingBuffer :: "nat \<Rightarrow> StringRingBuffer" where
  "CreateStringRingBuffer n = \<lparr>capacity = n, contents = []\<rparr>"

definition Push :: "gostring \<Rightarrow> StringRingBuffer \<Rightarrow> StringRingBuffer" where
  "Push line b =
     (if length (contents b) \<ge> capacity b
      then b\<lparr>contents := tl (contents b) @ [line]\<rparr>
      else b\<lparr>contents := contents b @ [line]\<rparr>)"

definition Peek :: "int \<Rightarrow> StringRingBuffer \<Rightarrow> gostring list" where
  "Peek k b = drop (length (contents b) - min (nat k) (length (contents b))) (contents b)"

section \<open>The dashboard state\<close>

text \<open>\<^verbatim>\<open>type interactiveInterfaceJob struct\<close>. The status is the Go string itself:
  the zero value \<^verbatim>\<open>""\<close> while building, then \<^verbatim>\<open>"failed"\<close> or \<^verbatim>\<open>"succeeded"\<close>.\<close>

record interactiveInterfaceJob =
  lastLogLines :: StringRingBuffer
  linesDisplayed :: int
  status :: gostring
  pushing :: bool
  image :: gostring
  service :: gostring

text \<open>
  The terminal backend (\<^verbatim>\<open>tcell.Screen\<close>) is an external collaborator. The model keeps
  what \<^verbatim>\<open>Size()\<close> answers and the sequence of calls the dashboard has made on the screen, in
  program order; a call that panics is recorded too.
\<close>

datatype color = NewRGBColor nat nat nat

datatype style = StyleDefault | Foreground style color

datatype call = Init | Clear | Size | SetContent int int rune style | Show | Sync | Fini

record screen_backend =
  dims :: "int \<times> int"
  calls :: "call list"

text \<open>
  \<^verbatim>\<open>type interactiveInterface struct\<close>. The map of job pointers is a partial function: every
  pointer is reachable through the map only, so updating the job under a key is the
  mutation through the pointer. \<open>mutex\<close> is \<open>True\<close> while \<^verbatim>\<open>sync.Mutex\<close> is held. \<open>stdout\<close> is
  not a field of the struct: it collects what \<^verbatim>\<open>fmt.Printf\<close> has written, one entry per call.
  The list of cancel listeners (callbacks run by the key-event loop) is left out: no
  operation modelled here reads it.
\<close>

record interactiveInterface =
  jobs :: "gostring \<rightharpoonup> interactiveInterfaceJob"
  mutex :: bool
  screen :: screen_backend
  screenStyle :: style
  cancelled :: bool
  running :: bool
  stdout :: "gostring list"

text \<open>
  How a call on the dashboard ends: it returns, it panics with a value, or it waits for
  a mutex that is held (in this sequential model nobody else can release it).
\<close>

datatype outcome = Returned | Panicked gostring | Blocked

section \<open>Job life cycle\<close>

definition StartJob :: "gostring \<Rightarrow> gostring \<Rightarrow> interactiveInterface \<Rightarrow> interactiveInterface \<times> outcome" where
  "StartJob svc img iface =
     (if mutex iface then (iface, Blocked)
      else
        let locked = iface\<lparr>mutex := True\<rparr>;
            job = \<lparr>lastLogLines = CreateStringRingBuffer 20, linesDisplayed = 0, status = [],
                   pushing = False, image = img, service = svc\<rparr>
        in (locked\<lparr>jobs := (jobs locked)(svc \<mapsto> job), mutex := False\<rparr>, Returned))"

text \<open>\<^verbatim>\<open>ProcessLog\<close>: the deferred \<^verbatim>\<open>Unlock\<close> runs on the panic path as well.\<close>

definition ProcessLog :: "gostring \<Rightarrow> gostring \<Rightarrow> interactiveInterface \<Rightarrow> interactiveInterface \<times> outcome" where
  "ProcessLog svc logLine iface =
     (if mutex iface then (iface, Blocked)
      else
        let locked = iface\<lparr>mutex := True\<rparr> in
        case jobs locked svc of
          None \<Rightarrow> (locked\<lparr>mutex := False\<rparr>, Panicked (str ''Could not find service: '' @ svc))
        | Some job \<Rightarrow>
            let trimmed = TrimSpace logLine in
            if trimmed \<noteq> []
            then (locked\<lparr>jobs := (jobs locked)(svc \<mapsto> job\<lparr>lastLogLines := Push trimmed (lastLogLines job)\<rparr>),
                         mutex := False\<rparr>, Returned)
            else (locked\<lparr>mutex := False\<rparr>, Returned))"

text \<open>\<^verbatim>\<open>FailJob\<close> calls \<^verbatim>\<open>ProcessLog\<close> before it takes the lock itself and does not recover:
  a panic of \<^verbatim>\<open>ProcessLog\<close> ends \<^verbatim>\<open>FailJob\<close>. The argument \<open>err\<close> is \<^verbatim>\<open>err.Error()\<close>.\<close>

definition FailJob :: "gostring \<Rightarrow> gostring \<Rightarrow> interactiveInterface \<Rightarrow> interactiveInterface \<times> outcome" where
  "FailJob svc err iface =
     (case ProcessLog svc (str ''Error! '' @ err) iface of
        (logged, Returned) \<Rightarrow>
          (if mutex logged then (logged, Blocked)
           else
             let locked = logged\<lparr>mutex := True\<rparr> in
             case jobs locked svc of
               Some job \<Rightarrow> (locked\<lparr>jobs := (jobs locked)(svc \<mapsto> job\<lparr>status := str ''failed''\<rparr>),
                                   mutex := False\<rparr>, Returned)
             | None \<Rightarrow> (locked\<lparr>mutex := False\<rparr>, Returned))
      | (logged, Panicked r) \<Rightarrow> (logged, Panicked r)
      | (logged, Blocked) \<Rightarrow> (logged, Blocked))"

definition SucceedJob :: "gostring \<Rightarrow> interactiveInterface \<Rightarrow> interactiveInterface \<times> outcome" where
  "SucceedJob svc iface =
     (if mutex iface then (iface, Blocked)
      else
        let locked = iface\<lparr>mutex := True\<rparr> in
        case jobs locked svc of
          Some job \<Rightarrow> (locked\<lparr>jobs := (jobs locked)(svc \<mapsto> job\<lparr>status := str ''succeeded''\<rparr>),
                              mutex := False\<rparr>, Returned)
        | None \<Rightarrow> (locked\<lparr>mutex := False\<rparr>, Returned))"

definition SetPushing :: "gostring \<Rightarrow> interactiveInterface \<Rightarrow> interactiveInterface \<times> outcome" where
  "SetPushing svc iface =
     (if mutex iface then (iface, Blocked)
      else
        let locked = iface\<lparr>mutex := True\<rparr> in
        case jobs locked svc of
          Some job \<Rightarrow> (locked\<lparr>jobs := (jobs locked)(svc \<mapsto> job\<lparr>pushing := True\<rparr>), mutex := False\<rparr>,
                       Returned)
        | None \<Rightarrow> (locked\<lparr>mutex := False\<rparr>, Returned))"

section \<open>Shutdown\<close>

text \<open>
  Go visits the entries of a map in an order that is not specified and changes from one
  \<^verbatim>\<open>range\<close> statement to the next. Every function that ranges over \<^verbatim>\<open>iface.jobs\<close> therefore
  takes the order of that visit as an argument \<open>ord\<close>: any list that holds each key of the
  map exactly once.
\<close>

definition rangeOrder :: "('k \<rightharpoonup> 'v) \<Rightarrow> 'k list \<Rightarrow> bool" where
  "rangeOrder m ord = (distinct ord \<and> set ord = dom m)"

text \<open>The loop of \<^verbatim>\<open>Close\<close>; the accumulator is (serviceLogDirs, serviceImages, failedJobs).\<close>

fun closeLoop ::
  "(gostring \<rightharpoonup> interactiveInterfaceJob) \<Rightarrow> gostring list \<Rightarrow>
   gostring list \<times> gostring list \<times> gostring list \<Rightarrow> gostring list \<times> gostring list \<times> gostring list" where
  "closeLoop js [] acc = acc"
| "closeLoop js (jobName # rest) (serviceLogDirs, serviceImages, failedJobs) =
     (case js jobName of
        None \<Rightarrow> closeLoop js rest (serviceLogDirs, serviceImages, failedJobs)
      | Some job \<Rightarrow>
          closeLoop js rest
            (serviceLogDirs @ [str ''logs/'' @ jobName @ str ''.log''],
             serviceImages @ [image job],
             if status job \<noteq> str ''succeeded'' then failedJobs @ [jobName] else failedJobs))"

definition failureSummary :: "gostring list \<Rightarrow> gostring" where
  "failureSummary failedJobs =
     str ''Failed to build the following jobs: '' @ Join failedJobs (str '', '') @ [10]
     @ str ''See the logs folder for details.'' @ [10]"

definition successSummary :: "gostring list \<Rightarrow> gostring" where
  "successSummary serviceImages = str ''Successfully built: '' @ Join serviceImages (str '' '') @ [10]"

definition Close :: "gostring list \<Rightarrow> interactiveInterface \<Rightarrow> interactiveInterface \<times> outcome" where
  "Close ord iface =
     (if mutex iface then (iface, Blocked)
      else
        let locked = iface\<lparr>mutex := True\<rparr>;
            stopped = locked\<lparr>running := False,
                             screen := (screen locked)\<lparr>calls := calls (screen locked) @ [Fini]\<rparr>\<rparr>;
            (serviceLogDirs, serviceImages, failedJobs) = closeLoop (jobs stopped) ord ([], [], []);
            printed =
              (if \<not> cancelled stopped
               then (if length failedJobs > 0
                     then stopped\<lparr>stdout := stdout stopped @ [failureSummary failedJobs]\<rparr>
                     else stopped\<lparr>stdout := stdout stopped @ [successSummary serviceImages]\<rparr>)
               else stopped)
        in (printed\<lparr>mutex := False\<rparr>, Returned))"

section \<open>Rendering\<close>

text \<open>The classification loop of \<^verbatim>\<open>redrawScreen\<close>; the accumulator is
  (succeededJobs, failedJobs, currJobs).\<close>

fun classify ::
  "(gostring \<rightharpoonup> interactiveInterfaceJob) \<Rightarrow> gostring list \<Rightarrow>
   interactiveInterfaceJob list \<times> interactiveInterfaceJob list \<times> interactiveInterfaceJob list \<Rightarrow>
   interactiveInterfaceJob list \<times> interactiveInterfaceJob list \<times> interactiveInterfaceJob list" where
  "classify js [] acc = acc"
| "classify js (k # ks) (succeededJobs, failedJobs, currJobs) =
     (case js k of
        None \<Rightarrow> classify js ks (succeededJobs, failedJobs, currJobs)
      | Some job \<Rightarrow>
          if status job = str ''succeeded'' then classify js ks (succeededJobs @ [job], failedJobs, currJobs)
          else if status job = str ''failed'' then classify js ks (succeededJobs, failedJobs @ [job], currJobs)
          else classify js ks (succeededJobs, failedJobs, currJobs @ [job]))"

text \<open>\<^verbatim>\<open>sortJobs\<close> orders a bucket by \<^verbatim>\<open>service\<close>. \<^verbatim>\<open>sort.Slice\<close> is not stable; the jobs of a
  registry have pairwise different services (lemma \<open>keyed_run\<close> below), and then every
  sorting algorithm returns the same list.\<close>

definition sortJobs :: "interactiveInterfaceJob list \<Rightarrow> interactiveInterfaceJob list" where
  "sortJobs js = sort_key service js"

text \<open>The calls of \<^verbatim>\<open>displayAndTruncateString(y, s, style)\<close> for a terminal of the given width.\<close>

definition displayAndTruncateString :: "int \<Rightarrow> int \<Rightarrow> gostring \<Rightarrow> style \<Rightarrow> call list" where
  "displayAndTruncateString width y s sty =
     map (\<lambda>i. SetContent (int i) y (s ! i) sty) [0 ..< min (nat width) (length s)]
     @ map (\<lambda>i. SetContent (int i) y 32 sty) [length s ..< nat width]"

text \<open>A row is one call of \<^verbatim>\<open>displayAndTruncateString\<close>: the line, the text and the style.\<close>

type_synonym row = "int \<times> gostring \<times> style"

fun logRows :: "int \<Rightarrow> gostring list \<Rightarrow> style \<Rightarrow> row list" where
  "logRows y [] sty = []"
| "logRows y (logLine # rest) sty = (y, logLine, sty) # logRows (y + 1) rest sty"

text \<open>
  The two job loops of \<^verbatim>\<open>redrawScreen\<close> differ in the header and its style only, and share
  \<^verbatim>\<open>currRenderLine\<close> and \<^verbatim>\<open>numRemainderLines\<close>. \<open>allocate\<close> is the control part of such a loop:
  for each job it reaches before the \<^verbatim>\<open>break\<close>, the line of its header and the argument
  \<^verbatim>\<open>logLinesToDisplay\<close> of its \<^verbatim>\<open>Peek\<close>; it returns the two counters as the loop leaves them.
\<close>

type_synonym block = "interactiveInterfaceJob \<times> int \<times> int"

fun allocate ::
  "int \<Rightarrow> int \<Rightarrow> interactiveInterfaceJob list \<Rightarrow> int \<times> int \<Rightarrow> block list \<times> (int \<times> int)" where
  "allocate height linesPerJob [] (currRenderLine, numRemainderLines) =
     ([], (currRenderLine, numRemainderLines))"
| "allocate height linesPerJob (job # rest) (currRenderLine, numRemainderLines) =
     (if currRenderLine + 1 \<ge> height - 2 then ([], (currRenderLine, numRemainderLines))
      else
        let logLinesToDisplay =
              (if numRemainderLines > 0 then linesPerJob - 1 + 1 else linesPerJob - 1);
            remaining = (if numRemainderLines > 0 then numRemainderLines - 1 else numRemainderLines);
            shown = length (Peek logLinesToDisplay (lastLogLines job));
            (blocks, final) =
              allocate height linesPerJob rest (currRenderLine + 1 + int shown, remaining)
        in ((job, currRenderLine, logLinesToDisplay) # blocks, final))"

text \<open>The rows one iteration writes: the header, then the peeked log lines below it.\<close>

definition blockRows :: "(interactiveInterfaceJob \<Rightarrow> gostring) \<Rightarrow> style \<Rightarrow> style \<Rightarrow> block \<Rightarrow> row list" where
  "blockRows header headerStyle logStyle b =
     (case b of (job, line, logLinesToDisplay) \<Rightarrow>
        (line, header job, headerStyle)
        # logRows (line + 1) (Peek logLinesToDisplay (lastLogLines job)) logStyle)"

definition failedHeader :: "interactiveInterfaceJob \<Rightarrow> gostring" where
  "failedHeader job = str ''[failed] '' @ image job"

definition currHeader :: "interactiveInterfaceJob \<Rightarrow> gostring" where
  "currHeader job =
     (if pushing job then str ''[building/pushing]'' else str ''[building]'') @ str '' '' @ image job"

text \<open>The \<^verbatim>\<open>fmt.Sprintf\<close> of the status line.\<close>

definition summaryLine :: "nat \<Rightarrow> nat \<Rightarrow> nat \<Rightarrow> gostring" where
  "summaryLine nFailed nSucceeded nCurr =
     (let numJobs = nCurr + nFailed + nSucceeded in
      itoa nFailed @ str ''/'' @ itoa numJobs @ str '' failed, ''
      @ itoa nSucceeded @ str ''/'' @ itoa numJobs @ str '' completed, ''
      @ itoa nCurr @ str ''/'' @ itoa numJobs @ str '' building'')"

text \<open>
  The layout arithmetic of \<^verbatim>\<open>redrawScreen\<close>, for \<open>n = numFailedAndBuilding\<close>. Go's \<^verbatim>\<open>/\<close> on
  \<^verbatim>\<open>int\<close> truncates towards zero (\<open>sdiv\<close>). \<^verbatim>\<open>int\<close> has 64 bits; the model computes in \<open>int\<close>,
  which agrees as long as the terminal height and the number of jobs stay far below \<open>2^62\<close>.
\<close>

definition linesPerJob :: "int \<Rightarrow> int \<Rightarrow> int" where
  "linesPerJob height n = (let l = (height - 1) sdiv n in if l < 2 then 2 else l)"

definition numRemainderLines :: "int \<Rightarrow> int \<Rightarrow> int" where
  "numRemainderLines height n = height - 1 - linesPerJob height n * n"

text \<open>The two job loops in sequence: the second one starts with the counters the first one left.\<close>

definition layoutJobs ::
  "int \<Rightarrow> interactiveInterfaceJob list \<Rightarrow> interactiveInterfaceJob list \<Rightarrow> block list \<times> block list" where
  "layoutJobs height failedJobs currJobs =
     (let numFailedAndBuilding = int (length failedJobs) + int (length currJobs);
          (failedBlocks, counters) =
             allocate height (linesPerJob height numFailedAndBuilding) failedJobs
               (0, numRemainderLines height numFailedAndBuilding);
          (currBlocks, final) =
             allocate height (linesPerJob height numFailedAndBuilding) currJobs counters
      in (failedBlocks, currBlocks))"

text \<open>All rows of one pass that got past the early return, in the order they are written.\<close>

definition frame ::
  "int \<Rightarrow> style \<Rightarrow> interactiveInterfaceJob list \<Rightarrow> interactiveInterfaceJob list \<Rightarrow>
   interactiveInterfaceJob list \<Rightarrow> row list" where
  "frame height sty succeededJobs failedJobs currJobs =
     (let (failedBlocks, currBlocks) = layoutJobs height failedJobs currJobs;
          failureStyle = Foreground sty (NewRGBColor 190 0 0);
          currStyle = Foreground sty (NewRGBColor 190 190 0);
          statusStyle = Foreground sty (NewRGBColor 190 190 190)
      in concat (map (blockRows failedHeader failureStyle sty) failedBlocks)
         @ concat (map (blockRows currHeader currStyle sty) currBlocks)
         @ [(height - 1,
             summaryLine (length failedJobs) (length succeededJobs) (length currJobs),
             statusStyle)])"

text \<open>
  The backend may panic in any call. \<open>fault n = Some r\<close> says that the \<open>n\<close>-th call of this
  pass on the screen (\<^verbatim>\<open>Size\<close> is call 0) panics with the value \<open>r\<close>. \<open>perform\<close> makes the
  calls in order until one panics.
\<close>

fun perform :: "(nat \<Rightarrow> gostring option) \<Rightarrow> nat \<Rightarrow> call list \<Rightarrow> call list \<Rightarrow> call list \<times> gostring option" where
  "perform fault n [] made = (made, None)"
| "perform fault n (c # cs) made =
     (case fault n of
        Some r \<Rightarrow> (made @ [c], Some r)
      | None \<Rightarrow> perform fault (Suc n) cs (made @ [c]))"

text \<open>
  The body of \<^verbatim>\<open>redrawScreen\<close> without the recovery handler. \<^verbatim>\<open>Size\<close> is called before the
  lock is taken. The deferred \<^verbatim>\<open>Unlock\<close> was registered after the handler, so on a panic it
  runs before the handler does.
\<close>

definition redrawBody ::
  "(nat \<Rightarrow> gostring option) \<Rightarrow> gostring list \<Rightarrow> interactiveInterface \<Rightarrow> interactiveInterface \<times> outcome" where
  "redrawBody fault ord iface =
     (case perform fault 0 [Size] (calls (screen iface)) of
        (made, Some r) \<Rightarrow> (iface\<lparr>screen := (screen iface)\<lparr>calls := made\<rparr>\<rparr>, Panicked r)
      | (made, None) \<Rightarrow>
          let (width, height) = dims (screen iface);
              sized = iface\<lparr>screen := (screen iface)\<lparr>calls := made\<rparr>\<rparr>
          in
          if mutex sized then (sized, Blocked)
          else
            let locked = sized\<lparr>mutex := True\<rparr>;
                (succeededJobs, failedJobs, currJobs) = classify (jobs locked) ord ([], [], []);
                succeededJobs = sortJobs succeededJobs;
                failedJobs = sortJobs failedJobs;
                currJobs = sortJobs currJobs;
                numFailedAndBuilding = length failedJobs + length currJobs
            in
            if numFailedAndBuilding = 0 then (locked\<lparr>mutex := False\<rparr>, Returned)
            else
              let rows = frame height (screenStyle locked) succeededJobs failedJobs currJobs;
                  todo = concat (map (\<lambda>(y, s, sty). displayAndTruncateString width y s sty) rows)
                         @ [Show]
              in
              (case perform fault 1 todo (calls (screen locked)) of
                 (made', Some r) \<Rightarrow>
                   (locked\<lparr>screen := (screen locked)\<lparr>calls := made'\<rparr>, mutex := False\<rparr>, Panicked r)
               | (made', None) \<Rightarrow>
                   (locked\<lparr>screen := (screen locked)\<lparr>calls := made'\<rparr>, mutex := False\<rparr>, Returned)))"

text \<open>
  \<^verbatim>\<open>redrawScreen\<close>: the deferred handler recovers a panic, calls \<^verbatim>\<open>Close\<close> (which ranges over
  the map in an order \<open>ordc\<close> of its own) and panics again with the recovered value.
\<close>

definition redrawScreen ::
  "(nat \<Rightarrow> gostring option) \<Rightarrow> gostring list \<Rightarrow> gostring list \<Rightarrow> interactiveInterface \<Rightarrow>
   interactiveInterface \<times> outcome" where
  "redrawScreen fault ord ordc iface =
     (case redrawBody fault ord iface of
        (failed, Panicked r) \<Rightarrow>
          (case Close ordc failed of
             (closed, Returned) \<Rightarrow> (closed, Panicked r)
           | (closed, Panicked r') \<Rightarrow> (closed, Panicked r')
           | (closed, Blocked) \<Rightarrow> (closed, Blocked))
      | (drawn, Returned) \<Rightarrow> (drawn, Returned)
      | (waiting, Blocked) \<Rightarrow> (waiting, Blocked))"

section \<open>Runs of the dashboard\<close>

text \<open>\<^verbatim>\<open>NewInteractiveInterface\<close> once the screen has been created: \<^verbatim>\<open>Init\<close>, \<^verbatim>\<open>Clear\<close>, and the
  state the two background loops start from. \<open>d\<close> is the size of the terminal.\<close>

definition NewInteractiveInterface :: "int \<times> int \<Rightarrow> interactiveInterface" where
  "NewInteractiveInterface d =
     \<lparr>jobs = Map.empty, mutex = False, screen = \<lparr>dims = d, calls = [Init, Clear]\<rparr>,
      screenStyle = StyleDefault, cancelled = False, running = True, stdout = []\<rparr>"

text \<open>
  Everything that acts on the dashboard: the calls of the build engine, a pass of the redraw
  loop, \<^verbatim>\<open>Close\<close>, and the two events the listener reacts to (a resize to a new size, which
  redraws and then calls \<^verbatim>\<open>Sync\<close>, and an interrupt key, which sets \<^verbatim>\<open>cancelled\<close>).
\<close>

datatype action =
    DoStartJob gostring gostring
  | DoProcessLog gostring gostring
  | DoFailJob gostring gostring
  | DoSucceedJob gostring
  | DoSetPushing gostring
  | DoRedraw "nat \<Rightarrow> gostring option" "gostring list" "gostring list"
  | DoClose "gostring list"
  | EventResize "int \<times> int" "nat \<Rightarrow> gostring option" "gostring list" "gostring list"
  | EventInterruptKey

fun step :: "action \<Rightarrow> interactiveInterface \<Rightarrow> interactiveInterface \<times> outcome" where
  "step (DoStartJob svc img) iface = StartJob svc img iface"
| "step (DoProcessLog svc logLine) iface = ProcessLog svc logLine iface"
| "step (DoFailJob svc err) iface = FailJob svc err iface"
| "step (DoSucceedJob svc) iface = SucceedJob svc iface"
| "step (DoSetPushing svc) iface = SetPushing svc iface"
| "step (DoRedraw fault ord ordc) iface = redrawScreen fault ord ordc iface"
| "step (DoClose ord) iface = Close ord iface"
| "step (EventResize d fault ord ordc) iface =
     (case redrawScreen fault ord ordc (iface\<lparr>screen := (screen iface)\<lparr>dims := d\<rparr>\<rparr>) of
        (drawn, Returned) \<Rightarrow>
          (drawn\<lparr>screen := (screen drawn)\<lparr>calls := calls (screen drawn) @ [Sync]\<rparr>\<rparr>, Returned)
      | (other, out) \<Rightarrow> (other, out))"
| "step EventInterruptKey iface = (iface\<lparr>cancelled := True\<rparr>, Returned)"

text \<open>A run stops at the first action that does not return: an unrecovered panic ends the
  process.\<close>

fun run :: "action list \<Rightarrow> interactiveInterface \<Rightarrow> interactiveInterface \<times> outcome" where
  "run [] iface = (iface, Returned)"
| "run (a # as) iface =
     (case step a iface of
        (next, Returned) \<Rightarrow> run as next
      | (next, Panicked r) \<Rightarrow> (next, Panicked r)
      | (next, Blocked) \<Rightarrow> (next, Blocked))"

text \<open>Whether the job under a key has its \<^verbatim>\<open>pushing\<close> flag set.\<close>

definition isPushing :: "gostring \<Rightarrow> interactiveInterface \<Rightarrow> bool" where
  "isPushing svc iface = (case jobs iface svc of Some job \<Rightarrow> pushing job | None \<Rightarrow> False)"

text \<open>Vocabulary for the summary of \<^verbatim>\<open>Close\<close>: whether the job under a key counts as failed
  there (any status other than "succeeded"), and the label (\<^verbatim>\<open>image\<close>) of the job under a key.\<close>

definition notSucceeded :: "(gostring \<rightharpoonup> interactiveInterfaceJob) \<Rightarrow> gostring \<Rightarrow> bool" where
  "notSucceeded js k = (case js k of Some job \<Rightarrow> status job \<noteq> str ''succeeded'' | None \<Rightarrow> False)"

definition labelOf :: "(gostring \<rightharpoonup> interactiveInterfaceJob) \<Rightarrow> gostring \<Rightarrow> gostring" where
  "labelOf js k = (case js k of Some job \<Rightarrow> image job | None \<Rightarrow> [])"

text \<open>Two fault schedules of the backend: no call panics; exactly the \<open>n\<close>-th call panics.\<close>

definition noFault :: "nat \<Rightarrow> gostring option" where
  "noFault i = None"

definition faultAt :: "nat \<Rightarrow> gostring \<Rightarrow> nat \<Rightarrow> gostring option" where
  "faultAt n r i = (if i = n then Some r else None)"

text \<open>The calls that draw: a cell write or the flush of the frame.\<close>

fun isDraw :: "call \<Rightarrow> bool" where
  "isDraw (SetContent x y r sty) = True"
| "isDraw Show = True"
| "isDraw c = False"

text \<open>
  Two abbreviations used by the proofs about \<^verbatim>\<open>redrawScreen\<close>: the three sorted buckets of a
  pass, and the calls a pass makes on the screen after \<^verbatim>\<open>Size\<close> when no call panics (none at
  all on the early return).
\<close>

definition buckets ::
  "(gostring \<rightharpoonup> interactiveInterfaceJob) \<Rightarrow> gostring list \<Rightarrow>
   interactiveInterfaceJob list \<times> interactiveInterfaceJob list \<times> interactiveInterfaceJob list" where
  "buckets js ord =
     (case classify js ord ([], [], []) of
        (succeededJobs, failedJobs, currJobs) \<Rightarrow>
          (sortJobs succeededJobs, sortJobs failedJobs, sortJobs currJobs))"

definition passCalls :: "interactiveInterface \<Rightarrow> gostring list \<Rightarrow> call list" where
  "passCalls iface ord =
     (case buckets (jobs iface) ord of
        (succeededJobs, failedJobs, currJobs) \<Rightarrow>
          if length failedJobs + length currJobs = 0 then []
          else concat (map (\<lambda>(y, s, sty). displayAndTruncateString (fst (dims (screen iface))) y s sty)
                         (frame (snd (dims (screen iface))) (screenStyle iface)
                            succeededJobs failedJobs currJobs))
               @ [Show])"

text \<open>Every job of the registry is stored under its own \<^verbatim>\<open>service\<close>: \<^verbatim>\<open>StartJob\<close> is the only
  writer of the map and of that field.\<close>

definition keyed :: "(gostring \<rightharpoonup> interactiveInterfaceJob) \<Rightarrow> bool" where
  "keyed js = (\<forall>k job. js k = Some job \<longrightarrow> service job = k)"

section \<open>Trimming\<close>

lemma TrimSpace_ends:
  "TrimSpace s = [] \<or> (\<not> isSpace (hd (TrimSpace s)) \<and> \<not> isSpace (last (TrimSpace s)))"
proof (cases "TrimSpace s = []")
  case True then show ?thesis by simp
next
  case False
  let ?a = "dropWhile isSpace s"
  let ?b = "dropWhile isSpace (rev ?a)"
  have t: "TrimSpace s = rev ?b" by (simp add: TrimSpace_def)
  have b: "?b \<noteq> []" using False t by simp
  then have hb: "\<not> isSpace (hd ?b)" by (rule hd_dropWhile)
  have a: "?a \<noteq> []" using b by (cases "?a") simp_all
  then have ha: "\<not> isSpace (hd ?a)" by (rule hd_dropWhile)
  have l: "last (TrimSpace s) = hd ?b" using b t by (simp add: last_rev)
  have "rev ?a = takeWhile isSpace (rev ?a) @ ?b" by simp
  then have "rev (rev ?a) = rev (takeWhile isSpace (rev ?a) @ ?b)" by (rule arg_cong)
  then have "?a = rev ?b @ rev (takeWhile isSpace (rev ?a))" by (simp only: rev_rev_ident rev_append)
  then have "hd ?a = hd (rev ?b @ rev (takeWhile isSpace (rev ?a)))" by (rule arg_cong)
  also have "\<dots> = hd (rev ?b)" using b by (simp only: hd_append2 rev_is_Nil_conv not_False_eq_True)
  finally have h: "hd (TrimSpace s) = hd ?a" using t by simp
  show ?thesis using ha hb l h by simp
qed

lemma TrimSpace_decompose:
  "\<exists>pre suf. s = pre @ TrimSpace s @ suf \<and> list_all isSpace pre \<and> list_all isSpace suf"
proof -
  let ?a = "dropWhile isSpace s"
  let ?b = "dropWhile isSpace (rev ?a)"
  let ?suf = "rev (takeWhile isSpace (rev ?a))"
  have "rev ?a = takeWhile isSpace (rev ?a) @ ?b" by simp
  then have "rev (rev ?a) = rev (takeWhile isSpace (rev ?a) @ ?b)" by (rule arg_cong)
  then have "?a = TrimSpace s @ ?suf" by (simp only: rev_rev_ident rev_append TrimSpace_def)
  moreover have "s = takeWhile isSpace s @ ?a" by simp
  ultimately have "s = takeWhile isSpace s @ TrimSpace s @ ?suf" by simp
  moreover have "list_all isSpace (takeWhile isSpace s)"
    unfolding list_all_iff by (blast dest: set_takeWhileD)
  moreover have "list_all isSpace ?suf"
    unfolding list_all_iff set_rev by (blast dest: set_takeWhileD)
  ultimately show ?thesis by blast
qed

lemma TrimSpace_nonspace_head: "\<not> isSpace x \<Longrightarrow> TrimSpace (x # xs) \<noteq> []"
  by (auto simp: TrimSpace_def dropWhile_eq_Nil_conv)

lemma TrimSpace_Error: "TrimSpace (str ''Error! '' @ err) \<noteq> []"
proof -
  have "str ''Error! '' @ err = 69 # (str ''rror! '' @ err)" by (simp add: str_def)
  moreover have "\<not> isSpace 69" by (simp add: isSpace_def)
  ultimately show ?thesis by (simp add: TrimSpace_nonspace_head)
qed

section \<open>What an action leaves alone\<close>

lemma Close_jobs: "jobs (fst (Close ord s)) = jobs s"
  by (simp add: Close_def Let_def split: prod.splits)

lemma Close_mutex: "mutex (fst (Close ord s)) = mutex s"
  by (simp add: Close_def Let_def split: prod.splits)

lemma Close_outcome: "snd (Close ord s) = (if mutex s then Blocked else Returned)"
  by (simp add: Close_def Let_def split: prod.splits)

lemma perform_single: "perform fault n [c] made = (made @ [c], fault n)"
  by (simp split: option.splits)

lemma redrawBody_jobs: "jobs (fst (redrawBody fault ord s)) = jobs s"
  by (simp add: redrawBody_def perform_single Let_def split: prod.splits option.splits)

lemma redrawBody_mutex: "mutex (fst (redrawBody fault ord s)) = mutex s"
  by (simp add: redrawBody_def perform_single Let_def split: prod.splits option.splits)

lemma redrawScreen_jobs: "jobs (fst (redrawScreen fault ord ordc s)) = jobs s"
proof -
  obtain s1 out where b: "redrawBody fault ord s = (s1, out)" by (cases "redrawBody fault ord s")
  then have j: "jobs s1 = jobs s" using redrawBody_jobs [of fault ord s] by simp
  show ?thesis
  proof (cases out)
    case (Panicked r)
    obtain s2 out2 where c: "Close ordc s1 = (s2, out2)" by (cases "Close ordc s1")
    then have "jobs s2 = jobs s1" using Close_jobs [of ordc s1] by simp
    then show ?thesis using b c j Panicked by (simp add: redrawScreen_def split: outcome.splits)
  qed (use b j in \<open>simp_all add: redrawScreen_def\<close>)
qed

lemma redrawScreen_mutex: "mutex (fst (redrawScreen fault ord ordc s)) = mutex s"
proof -
  obtain s1 out where b: "redrawBody fault ord s = (s1, out)" by (cases "redrawBody fault ord s")
  then have j: "mutex s1 = mutex s" using redrawBody_mutex [of fault ord s] by simp
  show ?thesis
  proof (cases out)
    case (Panicked r)
    obtain s2 out2 where c: "Close ordc s1 = (s2, out2)" by (cases "Close ordc s1")
    then have "mutex s2 = mutex s1" using Close_mutex [of ordc s1] by simp
    then show ?thesis using b c j Panicked by (simp add: redrawScreen_def split: outcome.splits)
  qed (use b j in \<open>simp_all add: redrawScreen_def\<close>)
qed

lemma ProcessLog_mutex: "mutex (fst (ProcessLog svc l s)) = mutex s"
  by (simp add: ProcessLog_def Let_def split: option.splits)

lemma ProcessLog_dom: "dom (jobs (fst (ProcessLog svc l s))) = dom (jobs s)"
  by (auto simp add: ProcessLog_def Let_def split: option.splits if_splits)

lemma FailJob_mutex: "mutex (fst (FailJob svc e s)) = mutex s"
proof -
  obtain s1 out where p: "ProcessLog svc (str ''Error! '' @ e) s = (s1, out)"
    by (cases "ProcessLog svc (str ''Error! '' @ e) s")
  then have "mutex s1 = mutex s" using ProcessLog_mutex [of svc "str ''Error! '' @ e" s] by simp
  then show ?thesis using p by (cases out) (simp_all add: FailJob_def Let_def split: option.splits)
qed

lemma FailJob_dom: "dom (jobs (fst (FailJob svc e s))) = dom (jobs s)"
proof -
  obtain s1 out where p: "ProcessLog svc (str ''Error! '' @ e) s = (s1, out)"
    by (cases "ProcessLog svc (str ''Error! '' @ e) s")
  then have "dom (jobs s1) = dom (jobs s)" using ProcessLog_dom [of svc "str ''Error! '' @ e" s] by simp
  then show ?thesis using p by (cases out) (auto simp add: FailJob_def Let_def split: option.splits)
qed

lemma step_mutex: "mutex (fst (step a s)) = mutex s"
proof (cases a)
  case (EventResize d fault ord ordc)
  let ?s = "s\<lparr>screen := (screen s)\<lparr>dims := d\<rparr>\<rparr>"
  have "mutex (fst (redrawScreen fault ord ordc ?s)) = mutex s"
    by (simp add: redrawScreen_mutex)
  then show ?thesis using EventResize
    by (cases "redrawScreen fault ord ordc ?s") (simp split: outcome.splits)
qed (simp_all add: StartJob_def ProcessLog_mutex FailJob_mutex SucceedJob_def SetPushing_def
       redrawScreen_mutex Close_mutex Let_def split: option.splits)

lemma step_dom:
  "\<not> mutex s \<Longrightarrow> dom (jobs (fst (step a s))) = dom (jobs s) \<union> {svc. \<exists>img. a = DoStartJob svc img}"
proof (cases a)
  case (EventResize d fault ord ordc)
  let ?s = "s\<lparr>screen := (screen s)\<lparr>dims := d\<rparr>\<rparr>"
  have "jobs (fst (redrawScreen fault ord ordc ?s)) = jobs s"
    by (simp add: redrawScreen_jobs)
  then show ?thesis using EventResize
    by (cases "redrawScreen fault ord ordc ?s") (simp split: outcome.splits)
qed (auto simp add: StartJob_def ProcessLog_dom FailJob_dom SucceedJob_def SetPushing_def
       redrawScreen_jobs Close_jobs Let_def split: option.splits)

lemma run_mutex: "mutex (fst (run acts s)) = mutex s"
proof (induction acts arbitrary: s)
  case Nil show ?case by simp
next
  case (Cons a acts)
  obtain s1 out where st: "step a s = (s1, out)" by (cases "step a s")
  then have m: "mutex s1 = mutex s" using step_mutex [of a s] by simp
  show ?case using st m Cons.IH [of s1] by (cases out) simp_all
qed

lemma run_dom:
  "run acts s = (s', Returned) \<Longrightarrow> \<not> mutex s \<Longrightarrow>
   dom (jobs s') = dom (jobs s) \<union> {svc. \<exists>img. DoStartJob svc img \<in> set acts}"
proof (induction acts arbitrary: s)
  case Nil then show ?case by simp
next
  case (Cons a acts)
  obtain s1 out where st: "step a s = (s1, out)" by (cases "step a s")
  have out: "out = Returned" using Cons.prems(1) st by (cases out) simp_all
  then have r: "run acts s1 = (s', Returned)" using Cons.prems(1) st by simp
  have m: "\<not> mutex s1" using step_mutex [of a s] st Cons.prems(2) by simp
  have d: "dom (jobs s1) = dom (jobs s) \<union> {svc. \<exists>img. a = DoStartJob svc img}"
    using step_dom [OF Cons.prems(2), of a] st by simp
  have "dom (jobs s') = dom (jobs s1) \<union> {svc. \<exists>img. DoStartJob svc img \<in> set acts}"
    using Cons.IH [OF r m] .
  then show ?case using d by auto
qed

lemma New_mutex: "\<not> mutex (NewInteractiveInterface d)"
  by (simp add: NewInteractiveInterface_def)

lemma ProcessLog_unknown:
  "\<not> mutex s \<Longrightarrow> jobs s svc = None \<Longrightarrow>
   ProcessLog svc l s = (s, Panicked (str ''Could not find service: '' @ svc))"
  by (simp add: ProcessLog_def)

lemma ProcessLog_known:
  "\<not> mutex s \<Longrightarrow> jobs s svc = Some job \<Longrightarrow>
   ProcessLog svc l s =
     (if TrimSpace l = [] then s
      else s\<lparr>jobs := (jobs s)(svc \<mapsto> job\<lparr>lastLogLines := Push (TrimSpace l) (lastLogLines job)\<rparr>)\<rparr>,
      Returned)"
  by (simp add: ProcessLog_def Let_def)

section \<open>Log lines\<close>

text \<open>
  Claim C6. In every state the dashboard reaches from \<^verbatim>\<open>NewInteractiveInterface\<close> by a run of
  actions that all returned, \<^verbatim>\<open>ProcessLog(key, line)\<close> panics exactly when no \<^verbatim>\<open>StartJob\<close> for
  the key is among those actions. For a started key it returns, leaves the whole state as
  it is when the trimmed line is empty, and otherwise pushes the trimmed line onto the ring
  buffer of that job and changes nothing else. The trimmed line is the line without a
  prefix and a suffix made of white space only, and it neither starts nor ends with white
  space.
\<close>

theorem ProcessLog_trims_and_needs_start:
  assumes "run acts (NewInteractiveInterface d) = (iface, Returned)"
  shows "(case jobs iface svc of
            None \<Rightarrow> ProcessLog svc logLine iface
                      = (iface, Panicked (str ''Could not find service: '' @ svc))
          | Some job \<Rightarrow> ProcessLog svc logLine iface
                      = (if TrimSpace logLine = [] then iface
                         else iface\<lparr>jobs := (jobs iface)(svc \<mapsto>
                                job\<lparr>lastLogLines := Push (TrimSpace logLine) (lastLogLines job)\<rparr>)\<rparr>,
                         Returned))
       \<and> ((\<exists>r. snd (ProcessLog svc logLine iface) = Panicked r)
            \<longleftrightarrow> (\<forall>img. DoStartJob svc img \<notin> set acts))
       \<and> (\<exists>pre suf. logLine = pre @ TrimSpace logLine @ suf
              \<and> list_all isSpace pre \<and> list_all isSpace suf)
       \<and> (TrimSpace logLine = []
            \<or> (\<not> isSpace (hd (TrimSpace logLine)) \<and> \<not> isSpace (last (TrimSpace logLine))))"
proof -
  have m: "\<not> mutex iface" using run_mutex [of acts "NewInteractiveInterface d"] assms
    by (simp add: New_mutex)
  have "dom (jobs iface) = dom (jobs (NewInteractiveInterface d)) \<union> {svc. \<exists>img. DoStartJob svc img \<in> set acts}"
    using run_dom [OF assms New_mutex] .
  then have d: "dom (jobs iface) = {svc. \<exists>img. DoStartJob svc img \<in> set acts}"
    by (simp add: NewInteractiveInterface_def)
  have 1: "(case jobs iface svc of
            None \<Rightarrow> ProcessLog svc logLine iface
                      = (iface, Panicked (str ''Could not find service: '' @ svc))
          | Some job \<Rightarrow> ProcessLog svc logLine iface
                      = (if TrimSpace logLine = [] then iface
                         else iface\<lparr>jobs := (jobs iface)(svc \<mapsto>
                                job\<lparr>lastLogLines := Push (TrimSpace logLine) (lastLogLines job)\<rparr>)\<rparr>,
                         Returned))"
    using m by (cases "jobs iface svc") (simp_all add: ProcessLog_unknown ProcessLog_known)
  have 2: "(\<exists>r. snd (ProcessLog svc logLine iface) = Panicked r)
            \<longleftrightarrow> (\<forall>img. DoStartJob svc img \<notin> set acts)"
  proof (cases "jobs iface svc")
    case None
    then have "svc \<notin> dom (jobs iface)" by auto
    then have "\<forall>img. DoStartJob svc img \<notin> set acts" using d by auto
    then show ?thesis using None m by (simp add: ProcessLog_unknown)
  next
    case (Some job)
    then have "svc \<in> dom (jobs iface)" by auto
    then have "\<exists>img. DoStartJob svc img \<in> set acts" using d by auto
    then show ?thesis using Some m by (auto simp add: ProcessLog_known)
  qed
  show ?thesis using 1 2 TrimSpace_decompose [of logLine] TrimSpace_ends [of logLine] by blast
qed

theorem ProcessLog_trims_and_needs_start_witness:
  "run [DoStartJob (str ''a'') (str ''img'')] (NewInteractiveInterface (80, 24))
     = (fst (run [DoStartJob (str ''a'') (str ''img'')] (NewInteractiveInterface (80, 24))), Returned)
   \<and> snd (ProcessLog (str ''a'') (str '' hi '')
            (fst (run [DoStartJob (str ''a'') (str ''img'')] (NewInteractiveInterface (80, 24)))))
       = Returned
   \<and> snd (ProcessLog (str ''b'') (str '' hi '')
            (fst (run [DoStartJob (str ''a'') (str ''img'')] (NewInteractiveInterface (80, 24)))))
       = Panicked (str ''Could not find service: b'')
   \<and> TrimSpace (str '' hi '') = str ''hi''"
proof -
  have h: "run [DoStartJob (str ''a'') (str ''img'')] (NewInteractiveInterface (80, 24))
     = (fst (run [DoStartJob (str ''a'') (str ''img'')] (NewInteractiveInterface (80, 24))), Returned)"
    by (simp add: StartJob_def NewInteractiveInterface_def)
  show ?thesis
    using h ProcessLog_trims_and_needs_start [OF h, of "str ''a''" "str '' hi ''"]
    by (simp add: StartJob_def NewInteractiveInterface_def ProcessLog_def TrimSpace_def
          isSpace_def str_def)
qed

section \<open>Status transitions\<close>

text \<open>
  Claim C1 says that \<^verbatim>\<open>FailJob\<close> on a key that was never started changes nothing and never
  fails fatally. The code does not do that: \<^verbatim>\<open>FailJob\<close> first calls \<^verbatim>\<open>ProcessLog\<close>, which
  panics on an unknown key, so the guarded status update below it is never reached. On the
  fresh dashboard, \<^verbatim>\<open>FailJob("x", "boom")\<close> panics with "Could not find service: x".
\<close>

theorem FailJob_unknown_key_panics:
  "FailJob (str ''x'') (str ''boom'') (NewInteractiveInterface (80, 24))
     = (NewInteractiveInterface (80, 24), Panicked (str ''Could not find service: x''))"
  by (simp add: FailJob_def ProcessLog_def NewInteractiveInterface_def str_def)

lemma SucceedJob_known:
  "\<not> mutex s \<Longrightarrow> jobs s svc = Some job \<Longrightarrow>
   SucceedJob svc s = (s\<lparr>jobs := (jobs s)(svc \<mapsto> job\<lparr>status := str ''succeeded''\<rparr>)\<rparr>, Returned)"
  by (simp add: SucceedJob_def Let_def)

lemma FailJob_known:
  "\<not> mutex s \<Longrightarrow> jobs s svc = Some job \<Longrightarrow>
   FailJob svc err s =
     (s\<lparr>jobs := (jobs s)(svc \<mapsto>
          job\<lparr>lastLogLines := Push (TrimSpace (str ''Error! '' @ err)) (lastLogLines job),
              status := str ''failed''\<rparr>)\<rparr>, Returned)"
  by (simp add: FailJob_def ProcessLog_known TrimSpace_Error Let_def)

text \<open>
  Claim C10. For a started key, whatever the status of its job is, \<^verbatim>\<open>SucceedJob\<close> returns
  with the status set to "succeeded" and nothing else changed, and \<^verbatim>\<open>FailJob\<close> returns with
  the line "Error! ..." pushed and the status set to "failed". A second terminal transition
  overwrites the first, in either order: both calls return, nothing is printed and no
  other field of the dashboard changes.
\<close>

theorem terminal_transition_overwrites:
  assumes "\<not> mutex iface" and "jobs iface svc = Some job"
  shows "SucceedJob svc iface
           = (iface\<lparr>jobs := (jobs iface)(svc \<mapsto> job\<lparr>status := str ''succeeded''\<rparr>)\<rparr>, Returned)
       \<and> FailJob svc err iface
           = (iface\<lparr>jobs := (jobs iface)(svc \<mapsto>
                 job\<lparr>lastLogLines := Push (TrimSpace (str ''Error! '' @ err)) (lastLogLines job),
                     status := str ''failed''\<rparr>)\<rparr>, Returned)
       \<and> run [DoFailJob svc err, DoSucceedJob svc] iface
           = (iface\<lparr>jobs := (jobs iface)(svc \<mapsto>
                 job\<lparr>lastLogLines := Push (TrimSpace (str ''Error! '' @ err)) (lastLogLines job),
                     status := str ''succeeded''\<rparr>)\<rparr>, Returned)
       \<and> run [DoSucceedJob svc, DoFailJob svc err] iface
           = (iface\<lparr>jobs := (jobs iface)(svc \<mapsto>
                 job\<lparr>lastLogLines := Push (TrimSpace (str ''Error! '' @ err)) (lastLogLines job),
                     status := str ''failed''\<rparr>)\<rparr>, Returned)"
  using assms by (simp add: SucceedJob_known FailJob_known)


theorem terminal_transition_overwrites_witness:
  "\<not> mutex (fst (StartJob (str ''a'') (str ''img'') (NewInteractiveInterface (80, 24))))
   \<and> map_option status
        (jobs (fst (run [DoFailJob (str ''a'') (str ''boom''), DoSucceedJob (str ''a'')]
                      (fst (StartJob (str ''a'') (str ''img'') (NewInteractiveInterface (80, 24))))))
           (str ''a''))
       = Some (str ''succeeded'')
   \<and> map_option status
        (jobs (fst (run [DoSucceedJob (str ''a''), DoFailJob (str ''a'') (str ''boom'')]
                      (fst (StartJob (str ''a'') (str ''img'') (NewInteractiveInterface (80, 24))))))
           (str ''a''))
       = Some (str ''failed'')"
proof -
  let ?s = "fst (StartJob (str ''a'') (str ''img'') (NewInteractiveInterface (80, 24)))"
  have m: "\<not> mutex ?s" by (simp add: StartJob_def NewInteractiveInterface_def)
  have j: "jobs ?s (str ''a'') =
      Some \<lparr>lastLogLines = CreateStringRingBuffer 20, linesDisplayed = 0, status = [],
            pushing = False, image = str ''img'', service = str ''a''\<rparr>"
    by (simp add: StartJob_def NewInteractiveInterface_def)
  note T = terminal_transition_overwrites [OF m j, of "str ''boom''"]
  have r1: "run [DoFailJob (str ''a'') (str ''boom''), DoSucceedJob (str ''a'')] ?s
      = (?s\<lparr>jobs := (jobs ?s)(str ''a'' \<mapsto>
           \<lparr>lastLogLines = CreateStringRingBuffer 20, linesDisplayed = 0, status = [],
             pushing = False, image = str ''img'', service = str ''a''\<rparr>
           \<lparr>lastLogLines := Push (TrimSpace (str ''Error! '' @ str ''boom''))
               (lastLogLines \<lparr>lastLogLines = CreateStringRingBuffer 20, linesDisplayed = 0,
                  status = [], pushing = False, image = str ''img'', service = str ''a''\<rparr>),
            status := str ''succeeded''\<rparr>)\<rparr>, Returned)"
    using T by blast
  have r2: "run [DoSucceedJob (str ''a''), DoFailJob (str ''a'') (str ''boom'')] ?s
      = (?s\<lparr>jobs := (jobs ?s)(str ''a'' \<mapsto>
           \<lparr>lastLogLines = CreateStringRingBuffer 20, linesDisplayed = 0, status = [],
             pushing = False, image = str ''img'', service = str ''a''\<rparr>
           \<lparr>lastLogLines := Push (TrimSpace (str ''Error! '' @ str ''boom''))
               (lastLogLines \<lparr>lastLogLines = CreateStringRingBuffer 20, linesDisplayed = 0,
                  status = [], pushing = False, image = str ''img'', service = str ''a''\<rparr>),
            status := str ''failed''\<rparr>)\<rparr>, Returned)"
    using T by blast
  show ?thesis unfolding r1 r2 using m by simp
qed

section \<open>The pushing flag\<close>

lemma ProcessLog_isPushing: "isPushing svc s \<Longrightarrow> isPushing svc (fst (ProcessLog k l s))"
  by (auto simp add: ProcessLog_def isPushing_def Let_def split: option.splits)

lemma FailJob_isPushing: "isPushing svc s \<Longrightarrow> isPushing svc (fst (FailJob k e s))"
proof -
  assume a: "isPushing svc s"
  obtain s1 out where p: "ProcessLog k (str ''Error! '' @ e) s = (s1, out)"
    by (cases "ProcessLog k (str ''Error! '' @ e) s")
  then have "isPushing svc s1" using ProcessLog_isPushing [OF a, of k "str ''Error! '' @ e"] by simp
  then show ?thesis using p
    by (cases out) (auto simp add: FailJob_def isPushing_def Let_def split: option.splits)
qed

lemma step_isPushing:
  "isPushing svc s \<Longrightarrow> \<forall>img. a \<noteq> DoStartJob svc img \<Longrightarrow> isPushing svc (fst (step a s))"
proof (cases a)
  case (EventResize d fault ord ordc)
  assume p: "isPushing svc s"
  let ?s = "s\<lparr>screen := (screen s)\<lparr>dims := d\<rparr>\<rparr>"
  have "jobs (fst (redrawScreen fault ord ordc ?s)) = jobs s"
    by (simp add: redrawScreen_jobs)
  then show ?thesis using EventResize p
    by (cases "redrawScreen fault ord ordc ?s") (simp add: isPushing_def split: outcome.splits)
next
  case (DoFailJob k e)
  assume "isPushing svc s"
  then show ?thesis using DoFailJob by (simp add: FailJob_isPushing)
next
  case (DoProcessLog k l)
  assume "isPushing svc s"
  then show ?thesis using DoProcessLog by (simp add: ProcessLog_isPushing)
qed (auto simp add: isPushing_def StartJob_def SucceedJob_def SetPushing_def
       redrawScreen_jobs Close_jobs Let_def split: option.splits)

lemma run_isPushing:
  "isPushing svc s \<Longrightarrow> \<forall>img. DoStartJob svc img \<notin> set acts \<Longrightarrow> isPushing svc (fst (run acts s))"
proof (induction acts arbitrary: s)
  case Nil then show ?case by simp
next
  case (Cons a acts)
  obtain s1 out where st: "step a s = (s1, out)" by (cases "step a s")
  have na: "\<forall>img. a \<noteq> DoStartJob svc img" using Cons.prems(2) by auto
  have p1: "isPushing svc s1" using step_isPushing [OF Cons.prems(1) na] st by simp
  have rest: "\<forall>img. DoStartJob svc img \<notin> set acts" using Cons.prems(2) by auto
  show ?case using st p1 Cons.IH [OF p1 rest] by (cases out) simp_all
qed

text \<open>
  Claim C3, amended. Once \<^verbatim>\<open>SetPushing(key)\<close> has set the flag of a started job, the flag
  stays set through every run of actions that holds no \<^verbatim>\<open>StartJob\<close> for the same key:
  log lines, failing, succeeding, pushing again, redraws, resizes, the interrupt key,
  \<^verbatim>\<open>Close\<close>, and \<^verbatim>\<open>StartJob\<close> for other keys.
\<close>

theorem pushing_stays_set_without_restart:
  assumes "\<not> mutex iface" and "jobs iface svc = Some job"
    and "\<forall>img. DoStartJob svc img \<notin> set acts"
  shows "isPushing svc (fst (SetPushing svc iface))
       \<and> isPushing svc (fst (run acts (fst (SetPushing svc iface))))"
proof -
  have p: "isPushing svc (fst (SetPushing svc iface))"
    using assms(1,2) by (simp add: SetPushing_def isPushing_def Let_def)
  show ?thesis using p run_isPushing [OF p assms(3)] by simp
qed

text \<open>
  Claim C3 as stated includes \<^verbatim>\<open>StartJob\<close> among the operations that never clear the flag.
  \<^verbatim>\<open>StartJob\<close> on the same key replaces the entry by a fresh job, whose flag is false.
\<close>

theorem pushing_cleared_by_restart:
  "isPushing (str ''a'')
     (fst (run [DoStartJob (str ''a'') (str ''img''), DoSetPushing (str ''a'')]
             (NewInteractiveInterface (80, 24))))
   \<and> \<not> isPushing (str ''a'')
     (fst (run [DoStartJob (str ''a'') (str ''img''), DoSetPushing (str ''a''),
                DoStartJob (str ''a'') (str ''img'')]
             (NewInteractiveInterface (80, 24))))"
  by (simp add: StartJob_def SetPushing_def isPushing_def NewInteractiveInterface_def)

theorem pushing_stays_set_without_restart_witness:
  "\<not> mutex (fst (StartJob (str ''a'') (str ''img'') (NewInteractiveInterface (80, 24))))
   \<and> isPushing (str ''a'')
       (fst (run [DoProcessLog (str ''a'') (str ''line''), DoStartJob (str ''b'') (str ''img2''),
                  DoFailJob (str ''a'') (str ''boom''), DoSucceedJob (str ''a''),
                  DoClose [str ''a'', str ''b'']]
               (fst (SetPushing (str ''a'')
                  (fst (StartJob (str ''a'') (str ''img'') (NewInteractiveInterface (80, 24))))))))"
proof -
  let ?s = "fst (StartJob (str ''a'') (str ''img'') (NewInteractiveInterface (80, 24)))"
  let ?acts = "[DoProcessLog (str ''a'') (str ''line''), DoStartJob (str ''b'') (str ''img2''),
                  DoFailJob (str ''a'') (str ''boom''), DoSucceedJob (str ''a''),
                  DoClose [str ''a'', str ''b'']]"
  have m: "\<not> mutex ?s" by (simp add: StartJob_def NewInteractiveInterface_def)
  have j: "jobs ?s (str ''a'') =
      Some \<lparr>lastLogLines = CreateStringRingBuffer 20, linesDisplayed = 0, status = [],
            pushing = False, image = str ''img'', service = str ''a''\<rparr>"
    by (simp add: StartJob_def NewInteractiveInterface_def)
  have n: "\<forall>img. DoStartJob (str ''a'') img \<notin> set ?acts" by (simp add: str_def)
  show ?thesis
    using m pushing_stays_set_without_restart [OF m j n] by simp
qed

section \<open>The summary of Close\<close>

lemmas run_defs = StartJob_def ProcessLog_def FailJob_def SucceedJob_def SetPushing_def
  NewInteractiveInterface_def TrimSpace_def isSpace_def Push_def CreateStringRingBuffer_def
  Let_def

lemma closeLoop_eq:
  "set ord \<subseteq> dom js \<Longrightarrow>
   closeLoop js ord (dirs, imgs, failed) =
     (dirs @ map (\<lambda>k. str ''logs/'' @ k @ str ''.log'') ord,
      imgs @ map (labelOf js) ord,
      failed @ filter (notSucceeded js) ord)"
proof (induction ord arbitrary: dirs imgs failed)
  case Nil show ?case by simp
next
  case (Cons k ks)
  then obtain job where j: "js k = Some job" by auto
  have sub: "set ks \<subseteq> dom js" using Cons.prems by simp
  show ?case using j Cons.IH [OF sub] by (simp add: notSucceeded_def labelOf_def)
qed

lemma Close_stdout:
  assumes "rangeOrder (jobs s) ord" and "\<not> mutex s"
  shows "Close ord s =
     (s\<lparr>running := False, screen := (screen s)\<lparr>calls := calls (screen s) @ [Fini]\<rparr>,
        stdout := stdout s @
          (if cancelled s then []
           else if filter (notSucceeded (jobs s)) ord \<noteq> []
                then [failureSummary (filter (notSucceeded (jobs s)) ord)]
                else [successSummary (map (labelOf (jobs s)) ord)])\<rparr>, Returned)"
proof -
  have sub: "set ord \<subseteq> dom (jobs s)" using assms(1) by (simp add: rangeOrder_def)
  show ?thesis using assms(2) closeLoop_eq [OF sub, of "[]" "[]" "[]"]
    by (simp add: Close_def Let_def)
qed

lemma filter_notSucceeded_set:
  "rangeOrder js ord \<Longrightarrow>
   set (filter (notSucceeded js) ord) = {k. \<exists>job. js k = Some job \<and> status job \<noteq> str ''succeeded''}"
  by (auto simp add: rangeOrder_def notSucceeded_def split: option.splits)

lemma ne_of_mem: "x \<in> S \<Longrightarrow> S \<noteq> {}"
  by auto

text \<open>
  Claim C4. \<^verbatim>\<open>Close\<close>, called with the mutex free, returns, and whatever order the \<^verbatim>\<open>range\<close> over
  the map takes: when \<^verbatim>\<open>cancelled\<close> is set it prints nothing; otherwise it prints exactly one
  summary. If some job has a status other than "succeeded" (a job still building has) the
  summary is "Failed to build the following jobs: ", the keys of exactly those jobs, each
  once, in the order of the visit and separated by ", ", a line break, "See the logs folder
  for details." and a line break. If there is no such job it is "Successfully built: ", the
  labels of all jobs, one for each key of the registry, in the order of the visit and
  separated by " ", and a line break. \<^verbatim>\<open>Close\<close> also clears \<^verbatim>\<open>running\<close> and finalizes the
  screen.
\<close>

theorem Close_prints_one_summary:
  assumes "rangeOrder (jobs iface) ord" and "\<not> mutex iface"
  shows "snd (Close ord iface) = Returned
       \<and> stdout (fst (Close ord iface)) = stdout iface @
            (if cancelled iface then []
             else if {k. \<exists>job. jobs iface k = Some job \<and> status job \<noteq> str ''succeeded''} \<noteq> {}
                  then [str ''Failed to build the following jobs: ''
                        @ Join (filter (notSucceeded (jobs iface)) ord) (str '', '') @ [10]
                        @ str ''See the logs folder for details.'' @ [10]]
                  else [str ''Successfully built: ''
                        @ Join (map (labelOf (jobs iface)) ord) (str '' '') @ [10]])
       \<and> distinct (filter (notSucceeded (jobs iface)) ord)
       \<and> set (filter (notSucceeded (jobs iface)) ord)
           = {k. \<exists>job. jobs iface k = Some job \<and> status job \<noteq> str ''succeeded''}
       \<and> (\<forall>k. notSucceeded (jobs iface) k
              = (\<exists>job. jobs iface k = Some job \<and> status job \<noteq> str ''succeeded''))
       \<and> (\<forall>k job. jobs iface k = Some job \<longrightarrow> labelOf (jobs iface) k = image job)
       \<and> length (map (labelOf (jobs iface)) ord) = card (dom (jobs iface))
       \<and> running (fst (Close ord iface)) = False
       \<and> calls (screen (fst (Close ord iface))) = calls (screen iface) @ [Fini]"
proof -
  have st: "set (filter (notSucceeded (jobs iface)) ord)
           = {k. \<exists>job. jobs iface k = Some job \<and> status job \<noteq> str ''succeeded''}"
    using filter_notSucceeded_set [OF assms(1)] .
  have e: "(filter (notSucceeded (jobs iface)) ord \<noteq> [])
       = ({k. \<exists>job. jobs iface k = Some job \<and> status job \<noteq> str ''succeeded''} \<noteq> {})"
    using st by (metis set_empty)
  have d: "distinct (filter (notSucceeded (jobs iface)) ord)"
    using assms(1) by (simp add: rangeOrder_def)
  have n: "\<forall>k. notSucceeded (jobs iface) k
              = (\<exists>job. jobs iface k = Some job \<and> status job \<noteq> str ''succeeded'')"
    by (simp add: notSucceeded_def split: option.splits)
  have l: "\<forall>k job. jobs iface k = Some job \<longrightarrow> labelOf (jobs iface) k = image job"
    by (simp add: labelOf_def)
  have c: "length (map (labelOf (jobs iface)) ord) = card (dom (jobs iface))"
    using assms(1) by (simp add: rangeOrder_def distinct_card [symmetric])
  have 1: "snd (Close ord iface) = Returned" unfolding Close_stdout [OF assms] by simp
  have 2: "stdout (fst (Close ord iface)) = stdout iface @
            (if cancelled iface then []
             else if {k. \<exists>job. jobs iface k = Some job \<and> status job \<noteq> str ''succeeded''} \<noteq> {}
                  then [str ''Failed to build the following jobs: ''
                        @ Join (filter (notSucceeded (jobs iface)) ord) (str '', '') @ [10]
                        @ str ''See the logs folder for details.'' @ [10]]
                  else [str ''Successfully built: ''
                        @ Join (map (labelOf (jobs iface)) ord) (str '' '') @ [10]])"
    unfolding Close_stdout [OF assms] failureSummary_def successSummary_def using e by simp
  have 3: "running (fst (Close ord iface)) = False" unfolding Close_stdout [OF assms] by simp
  have 4: "calls (screen (fst (Close ord iface))) = calls (screen iface) @ [Fini]"
    unfolding Close_stdout [OF assms] by simp
  show ?thesis using 1 2 d st n l c 3 4 by (intro conjI)
qed

text \<open>
  Claim C2, amended. Two runs of \<^verbatim>\<open>Close\<close> on the same state with \<^verbatim>\<open>cancelled\<close> false each
  print exactly one summary line of the same kind, and the two lines list the same job keys
  (failure line) or the same labels (success line), each as often in one as in the other.
  The order in the line is the order in which \<^verbatim>\<open>range\<close> visited the map in that run.
\<close>

theorem Close_summary_up_to_order:
  assumes "rangeOrder (jobs iface) ord1" and "rangeOrder (jobs iface) ord2"
    and "\<not> mutex iface" and "\<not> cancelled iface"
  shows "(if {k. \<exists>job. jobs iface k = Some job \<and> status job \<noteq> str ''succeeded''} \<noteq> {}
          then stdout (fst (Close ord1 iface))
                 = stdout iface @ [failureSummary (filter (notSucceeded (jobs iface)) ord1)]
             \<and> stdout (fst (Close ord2 iface))
                 = stdout iface @ [failureSummary (filter (notSucceeded (jobs iface)) ord2)]
          else stdout (fst (Close ord1 iface))
                 = stdout iface @ [successSummary (map (labelOf (jobs iface)) ord1)]
             \<and> stdout (fst (Close ord2 iface))
                 = stdout iface @ [successSummary (map (labelOf (jobs iface)) ord2)])
       \<and> mset (filter (notSucceeded (jobs iface)) ord1) = mset (filter (notSucceeded (jobs iface)) ord2)
       \<and> mset (map (labelOf (jobs iface)) ord1) = mset (map (labelOf (jobs iface)) ord2)"
proof -
  have m: "mset ord1 = mset ord2"
    using assms(1,2) by (simp add: rangeOrder_def set_eq_iff_mset_eq_distinct [symmetric])
  have f: "mset (filter (notSucceeded (jobs iface)) ord1) = mset (filter (notSucceeded (jobs iface)) ord2)"
    using m by (metis mset_filter)
  have i: "mset (map (labelOf (jobs iface)) ord1) = mset (map (labelOf (jobs iface)) ord2)"
    using m by (metis mset_map)
  have e1: "(filter (notSucceeded (jobs iface)) ord1 \<noteq> [])
       = ({k. \<exists>job. jobs iface k = Some job \<and> status job \<noteq> str ''succeeded''} \<noteq> {})"
    using filter_notSucceeded_set [OF assms(1)] by (metis set_empty)
  have e2: "(filter (notSucceeded (jobs iface)) ord2 \<noteq> [])
       = ({k. \<exists>job. jobs iface k = Some job \<and> status job \<noteq> str ''succeeded''} \<noteq> {})"
    using filter_notSucceeded_set [OF assms(2)] by (metis set_empty)
  show ?thesis
  proof (cases "{k. \<exists>job. jobs iface k = Some job \<and> status job \<noteq> str ''succeeded''} \<noteq> {}")
    case True
    then have "filter (notSucceeded (jobs iface)) ord1 \<noteq> []"
      and "filter (notSucceeded (jobs iface)) ord2 \<noteq> []" using e1 e2 by simp_all
    then show ?thesis
      unfolding Close_stdout [OF assms(1,3)] Close_stdout [OF assms(2,3)]
      using f i assms(4) True by simp
  next
    case False
    then have "filter (notSucceeded (jobs iface)) ord1 = []"
      and "filter (notSucceeded (jobs iface)) ord2 = []" using e1 e2 by simp_all
    then show ?thesis
      unfolding Close_stdout [OF assms(1,3)] Close_stdout [OF assms(2,3)]
      using i assms(4) False by simp
  qed
qed


theorem Close_prints_one_summary_witness:
  "rangeOrder (jobs (fst (run [DoStartJob (str ''A'') (str ''imgA''), DoStartJob (str ''B'') (str ''imgB''),
              DoStartJob (str ''C'') (str ''imgC''),
              DoFailJob (str ''A'') (str ''boom''), DoSucceedJob (str ''B'')]
           (NewInteractiveInterface (80, 24))))) [str ''C'', str ''B'', str ''A'']
   \<and> \<not> mutex (fst (run [DoStartJob (str ''A'') (str ''imgA''), DoStartJob (str ''B'') (str ''imgB''),
              DoStartJob (str ''C'') (str ''imgC''),
              DoFailJob (str ''A'') (str ''boom''), DoSucceedJob (str ''B'')]
           (NewInteractiveInterface (80, 24))))
   \<and> stdout (fst (Close [str ''C'', str ''B'', str ''A''] (fst (run [DoStartJob (str ''A'') (str ''imgA''), DoStartJob (str ''B'') (str ''imgB''),
              DoStartJob (str ''C'') (str ''imgC''),
              DoFailJob (str ''A'') (str ''boom''), DoSucceedJob (str ''B'')]
           (NewInteractiveInterface (80, 24))))))
       = [str ''Failed to build the following jobs: C, A'' @ [10]
          @ str ''See the logs folder for details.'' @ [10]]
   \<and> rangeOrder (jobs (fst (run [DoStartJob (str ''A'') (str ''imgA''), DoStartJob (str ''B'') (str ''imgB''),
              DoSucceedJob (str ''A''), DoSucceedJob (str ''B'')]
           (NewInteractiveInterface (80, 24))))) [str ''B'', str ''A'']
   \<and> \<not> mutex (fst (run [DoStartJob (str ''A'') (str ''imgA''), DoStartJob (str ''B'') (str ''imgB''),
              DoSucceedJob (str ''A''), DoSucceedJob (str ''B'')]
           (NewInteractiveInterface (80, 24))))
   \<and> stdout (fst (Close [str ''B'', str ''A''] (fst (run [DoStartJob (str ''A'') (str ''imgA''), DoStartJob (str ''B'') (str ''imgB''),
              DoSucceedJob (str ''A''), DoSucceedJob (str ''B'')]
           (NewInteractiveInterface (80, 24))))))
       = [str ''Successfully built: imgB imgA'' @ [10]]
   \<and> rangeOrder (jobs (fst (run [DoStartJob (str ''A'') (str ''imgA''), EventInterruptKey]
           (NewInteractiveInterface (80, 24))))) [str ''A'']
   \<and> \<not> mutex (fst (run [DoStartJob (str ''A'') (str ''imgA''), EventInterruptKey]
           (NewInteractiveInterface (80, 24))))
   \<and> stdout (fst (Close [str ''A''] (fst (run [DoStartJob (str ''A'') (str ''imgA''), EventInterruptKey]
           (NewInteractiveInterface (80, 24)))))) = []"
proof -
  let ?a = "(fst (run [DoStartJob (str ''A'') (str ''imgA''), DoStartJob (str ''B'') (str ''imgB''),
              DoStartJob (str ''C'') (str ''imgC''),
              DoFailJob (str ''A'') (str ''boom''), DoSucceedJob (str ''B'')]
           (NewInteractiveInterface (80, 24))))"
  let ?b = "(fst (run [DoStartJob (str ''A'') (str ''imgA''), DoStartJob (str ''B'') (str ''imgB''),
              DoSucceedJob (str ''A''), DoSucceedJob (str ''B'')]
           (NewInteractiveInterface (80, 24))))"
  let ?c = "(fst (run [DoStartJob (str ''A'') (str ''imgA''), EventInterruptKey]
           (NewInteractiveInterface (80, 24))))"
  have ra: "rangeOrder (jobs ?a) [str ''C'', str ''B'', str ''A'']"
    by (auto simp add: rangeOrder_def run_defs str_def)
  have ma: "\<not> mutex ?a" by (simp add: run_defs str_def)
  have fa: "filter (notSucceeded (jobs ?a)) [str ''C'', str ''B'', str ''A''] = [str ''C'', str ''A'']"
    by (simp add: notSucceeded_def run_defs str_def)
  have ca: "\<not> cancelled ?a" and oa: "stdout ?a = []" by (simp_all add: run_defs str_def)
  note Ta = Close_prints_one_summary [OF ra ma]
  have sa: "{k. \<exists>job. jobs ?a k = Some job \<and> status job \<noteq> str ''succeeded''} \<noteq> {}"
  proof -
    have "set (filter (notSucceeded (jobs ?a)) [str ''C'', str ''B'', str ''A''])
        = {k. \<exists>job. jobs ?a k = Some job \<and> status job \<noteq> str ''succeeded''}"
      by (rule Ta [THEN conjunct2, THEN conjunct2, THEN conjunct2, THEN conjunct1])
    then have "set [str ''C'', str ''A'']
        = {k. \<exists>job. jobs ?a k = Some job \<and> status job \<noteq> str ''succeeded''}"
      unfolding fa .
    then have "str ''C'' \<in> {k. \<exists>job. jobs ?a k = Some job \<and> status job \<noteq> str ''succeeded''}"
      by (metis list.set_intros(1))
    then show ?thesis by (rule ne_of_mem)
  qed
  have "stdout (fst (Close [str ''C'', str ''B'', str ''A''] ?a)) = stdout ?a @
            (if cancelled ?a then []
             else if {k. \<exists>job. jobs ?a k = Some job \<and> status job \<noteq> str ''succeeded''} \<noteq> {}
                  then [str ''Failed to build the following jobs: ''
                        @ Join (filter (notSucceeded (jobs ?a)) [str ''C'', str ''B'', str ''A'']) (str '', '') @ [10]
                        @ str ''See the logs folder for details.'' @ [10]]
                  else [str ''Successfully built: ''
                        @ Join (map (labelOf (jobs ?a)) [str ''C'', str ''B'', str ''A'']) (str '' '') @ [10]])"
    by (rule Ta [THEN conjunct2, THEN conjunct1])
  then have "stdout (fst (Close [str ''C'', str ''B'', str ''A''] ?a))
      = [str ''Failed to build the following jobs: ''
                        @ Join [str ''C'', str ''A''] (str '', '') @ [10]
                        @ str ''See the logs folder for details.'' @ [10]]"
    unfolding fa oa using ca sa by (simp only: if_False if_True append_Nil simp_thms)
  then have A: "stdout (fst (Close [str ''C'', str ''B'', str ''A''] ?a))
       = [str ''Failed to build the following jobs: C, A'' @ [10]
          @ str ''See the logs folder for details.'' @ [10]]"
    by (simp add: str_def)
  have rb: "rangeOrder (jobs ?b) [str ''B'', str ''A'']"
    by (auto simp add: rangeOrder_def run_defs str_def)
  have mb: "\<not> mutex ?b" by (simp add: run_defs str_def)
  have cb: "\<not> cancelled ?b" and ob: "stdout ?b = []" by (simp_all add: run_defs str_def)
  have lb: "map (labelOf (jobs ?b)) [str ''B'', str ''A''] = [str ''imgB'', str ''imgA'']"
    by (simp add: labelOf_def run_defs str_def)
  have sb: "\<not> {k. \<exists>job. jobs ?b k = Some job \<and> status job \<noteq> str ''succeeded''} \<noteq> {}"
    by (auto simp add: run_defs str_def split: if_splits)
  note Tb = Close_prints_one_summary [OF rb mb]
  have "stdout (fst (Close [str ''B'', str ''A''] ?b)) = stdout ?b @
            (if cancelled ?b then []
             else if {k. \<exists>job. jobs ?b k = Some job \<and> status job \<noteq> str ''succeeded''} \<noteq> {}
                  then [str ''Failed to build the following jobs: ''
                        @ Join (filter (notSucceeded (jobs ?b)) [str ''B'', str ''A'']) (str '', '') @ [10]
                        @ str ''See the logs folder for details.'' @ [10]]
                  else [str ''Successfully built: ''
                        @ Join (map (labelOf (jobs ?b)) [str ''B'', str ''A'']) (str '' '') @ [10]])"
    by (rule Tb [THEN conjunct2, THEN conjunct1])
  then have "stdout (fst (Close [str ''B'', str ''A''] ?b))
      = [str ''Successfully built: '' @ Join [str ''imgB'', str ''imgA''] (str '' '') @ [10]]"
    unfolding lb ob using cb sb by (simp only: if_False if_True append_Nil simp_thms)
  then have B: "stdout (fst (Close [str ''B'', str ''A''] ?b))
       = [str ''Successfully built: imgB imgA'' @ [10]]"
    by (simp add: str_def)
  have rc: "rangeOrder (jobs ?c) [str ''A'']"
    by (auto simp add: rangeOrder_def run_defs str_def)
  have mc: "\<not> mutex ?c" by (simp add: run_defs str_def)
  have cc: "cancelled ?c" and oc: "stdout ?c = []" by (simp_all add: run_defs str_def)
  note Tc = Close_prints_one_summary [OF rc mc]
  have "stdout (fst (Close [str ''A''] ?c)) = stdout ?c @
            (if cancelled ?c then []
             else if {k. \<exists>job. jobs ?c k = Some job \<and> status job \<noteq> str ''succeeded''} \<noteq> {}
                  then [str ''Failed to build the following jobs: ''
                        @ Join (filter (notSucceeded (jobs ?c)) [str ''A'']) (str '', '') @ [10]
                        @ str ''See the logs folder for details.'' @ [10]]
                  else [str ''Successfully built: ''
                        @ Join (map (labelOf (jobs ?c)) [str ''A'']) (str '' '') @ [10]])"
    by (rule Tc [THEN conjunct2, THEN conjunct1])
  then have C: "stdout (fst (Close [str ''A''] ?c)) = []"
    unfolding oc using cc by (simp only: if_True append_Nil simp_thms)
  show ?thesis using ra ma A rb mb B rc mc C by (intro conjI)
qed

text \<open>
  Claim C2 as stated asks for the same line in both runs, keys and labels in the same
  order. \<^verbatim>\<open>Close\<close> appends in the order of its \<^verbatim>\<open>range\<close> over the map and does not sort: with
  two jobs, the two possible visits give two different failure lines, and two different
  success lines once both jobs have succeeded.
\<close>

theorem Close_summary_depends_on_map_order:
  "rangeOrder (jobs (fst (run [DoStartJob (str ''a'') (str ''imgA''), DoStartJob (str ''b'') (str ''imgB'')]
                            (NewInteractiveInterface (80, 24))))) [str ''a'', str ''b'']
   \<and> rangeOrder (jobs (fst (run [DoStartJob (str ''a'') (str ''imgA''), DoStartJob (str ''b'') (str ''imgB'')]
                            (NewInteractiveInterface (80, 24))))) [str ''b'', str ''a'']
   \<and> \<not> cancelled (fst (run [DoStartJob (str ''a'') (str ''imgA''), DoStartJob (str ''b'') (str ''imgB'')]
                            (NewInteractiveInterface (80, 24))))
   \<and> stdout (fst (Close [str ''a'', str ''b'']
        (fst (run [DoStartJob (str ''a'') (str ''imgA''), DoStartJob (str ''b'') (str ''imgB'')]
                (NewInteractiveInterface (80, 24))))))
       = [str ''Failed to build the following jobs: a, b'' @ [10]
          @ str ''See the logs folder for details.'' @ [10]]
   \<and> stdout (fst (Close [str ''b'', str ''a'']
        (fst (run [DoStartJob (str ''a'') (str ''imgA''), DoStartJob (str ''b'') (str ''imgB'')]
                (NewInteractiveInterface (80, 24))))))
       = [str ''Failed to build the following jobs: b, a'' @ [10]
          @ str ''See the logs folder for details.'' @ [10]]
   \<and> stdout (fst (Close [str ''a'', str ''b'']
        (fst (run [DoStartJob (str ''a'') (str ''imgA''), DoStartJob (str ''b'') (str ''imgB''),
                   DoSucceedJob (str ''a''), DoSucceedJob (str ''b'')]
                (NewInteractiveInterface (80, 24))))))
       = [str ''Successfully built: imgA imgB'' @ [10]]
   \<and> stdout (fst (Close [str ''b'', str ''a'']
        (fst (run [DoStartJob (str ''a'') (str ''imgA''), DoStartJob (str ''b'') (str ''imgB''),
                   DoSucceedJob (str ''a''), DoSucceedJob (str ''b'')]
                (NewInteractiveInterface (80, 24))))))
       = [str ''Successfully built: imgB imgA'' @ [10]]"
  by (auto simp add: rangeOrder_def run_defs str_def Close_def failureSummary_def successSummary_def)

theorem Close_summary_up_to_order_witness:
  "rangeOrder (jobs (fst (run [DoStartJob (str ''a'') (str ''imgA''), DoStartJob (str ''b'') (str ''imgB'')]
                            (NewInteractiveInterface (80, 24))))) [str ''a'', str ''b'']
   \<and> rangeOrder (jobs (fst (run [DoStartJob (str ''a'') (str ''imgA''), DoStartJob (str ''b'') (str ''imgB'')]
                            (NewInteractiveInterface (80, 24))))) [str ''b'', str ''a'']
   \<and> \<not> mutex (fst (run [DoStartJob (str ''a'') (str ''imgA''), DoStartJob (str ''b'') (str ''imgB'')]
                            (NewInteractiveInterface (80, 24))))
   \<and> \<not> cancelled (fst (run [DoStartJob (str ''a'') (str ''imgA''), DoStartJob (str ''b'') (str ''imgB'')]
                            (NewInteractiveInterface (80, 24))))
   \<and> mset (filter (notSucceeded (jobs (fst (run [DoStartJob (str ''a'') (str ''imgA''),
                DoStartJob (str ''b'') (str ''imgB'')] (NewInteractiveInterface (80, 24))))))
              [str ''a'', str ''b''])
     = mset (filter (notSucceeded (jobs (fst (run [DoStartJob (str ''a'') (str ''imgA''),
                DoStartJob (str ''b'') (str ''imgB'')] (NewInteractiveInterface (80, 24))))))
              [str ''b'', str ''a''])"
proof -
  let ?s = "fst (run [DoStartJob (str ''a'') (str ''imgA''), DoStartJob (str ''b'') (str ''imgB'')]
                            (NewInteractiveInterface (80, 24)))"
  have r1: "rangeOrder (jobs ?s) [str ''a'', str ''b'']"
    by (auto simp add: rangeOrder_def run_defs str_def)
  have r2: "rangeOrder (jobs ?s) [str ''b'', str ''a'']"
    by (auto simp add: rangeOrder_def run_defs str_def)
  have m: "\<not> mutex ?s" by (simp add: run_defs str_def)
  have c: "\<not> cancelled ?s" by (simp add: run_defs)
  show ?thesis using r1 r2 m c Close_summary_up_to_order [OF r1 r2 m c] by blast
qed

section \<open>The calls of a render pass\<close>

lemma redrawBody_eq:
  "redrawBody fault ord iface =
     (case fault 0 of
        Some r \<Rightarrow> (iface\<lparr>screen := (screen iface)\<lparr>calls := calls (screen iface) @ [Size]\<rparr>\<rparr>, Panicked r)
      | None \<Rightarrow>
          if mutex iface
          then (iface\<lparr>screen := (screen iface)\<lparr>calls := calls (screen iface) @ [Size]\<rparr>\<rparr>, Blocked)
          else (case perform fault 1 (passCalls iface ord) (calls (screen iface) @ [Size]) of
                  (made, Some r) \<Rightarrow> (iface\<lparr>screen := (screen iface)\<lparr>calls := made\<rparr>\<rparr>, Panicked r)
                | (made, None) \<Rightarrow> (iface\<lparr>screen := (screen iface)\<lparr>calls := made\<rparr>\<rparr>, Returned)))"
proof (cases "fault 0")
  case (Some r)
  then show ?thesis by (simp add: redrawBody_def)
next
  case None
  show ?thesis
  proof (cases "mutex iface")
    case True
    then show ?thesis using None by (simp add: redrawBody_def Let_def split: prod.splits)
  next
    case False
    obtain s f c where cl: "classify (jobs iface) ord ([], [], []) = (s, f, c)"
      by (cases "classify (jobs iface) ord ([], [], [])")
    obtain w h where d: "dims (screen iface) = (w, h)" by (cases "dims (screen iface)")
    show ?thesis
    proof (cases "length (sortJobs f) + length (sortJobs c) = 0")
      case True
      then have "passCalls iface ord = []" using cl by (simp add: passCalls_def buckets_def)
      then show ?thesis using None False cl d True
        by (simp add: redrawBody_def Let_def)
    next
      case nz: False
      let ?todo = "concat (map (\<lambda>(y, s, sty). displayAndTruncateString w y s sty)
                         (frame h (screenStyle iface) (sortJobs s) (sortJobs f) (sortJobs c)))
               @ [Show]"
      have pc: "passCalls iface ord = ?todo" using cl d nz by (simp add: passCalls_def buckets_def)
      obtain made res where pf: "perform fault 1 ?todo (calls (screen iface) @ [Size]) = (made, res)"
        by (cases "perform fault 1 ?todo (calls (screen iface) @ [Size])")
      show ?thesis unfolding pc using None False cl d nz pf
        by (cases res) (auto simp add: redrawBody_def Let_def)
    qed
  qed
qed


lemma perform_None: "perform fault n cs made = (made', None) \<Longrightarrow> made' = made @ cs"
proof (induction cs arbitrary: n made)
  case Nil then show ?case by simp
next
  case (Cons c cs)
  then have "perform fault (Suc n) cs (made @ [c]) = (made', None)"
    by (cases "fault n") simp_all
  from Cons.IH [OF this] show ?case by simp
qed

lemma perform_noFault: "perform noFault n cs made = (made @ cs, None)"
  by (induction cs arbitrary: n made) (simp_all add: noFault_def)

text \<open>What \<open>perform\<close> did: the calls it made are a prefix of the list; no call before the last
  one panicked; the result is the fault of the last call made.\<close>

lemma perform_trace:
  "perform fault n cs made = (made', res) \<Longrightarrow>
   \<exists>did. made' = made @ did \<and> did = take (length did) cs
       \<and> (\<forall>i < length did - 1. fault (n + i) = None)
       \<and> (case res of None \<Rightarrow> did = cs \<and> (\<forall>i < length cs. fault (n + i) = None)
                     | Some r \<Rightarrow> did \<noteq> [] \<and> fault (n + (length did - 1)) = Some r)"
proof (induction cs arbitrary: n made)
  case Nil
  then show ?case by auto
next
  case (Cons c cs)
  show ?case
  proof (cases "fault n")
    case (Some r)
    then have "made' = made @ [c]" and "res = Some r" using Cons.prems by simp_all
    then show ?thesis using Some by (intro exI [of _ "[c]"]) simp
  next
    case None
    then have "perform fault (Suc n) cs (made @ [c]) = (made', res)" using Cons.prems by simp
    from Cons.IH [OF this] obtain did where
      d: "made' = (made @ [c]) @ did" "did = take (length did) cs"
         "\<forall>i < length did - 1. fault (Suc n + i) = None"
         "(case res of None \<Rightarrow> did = cs \<and> (\<forall>i < length cs. fault (Suc n + i) = None)
                     | Some r \<Rightarrow> did \<noteq> [] \<and> fault (Suc n + (length did - 1)) = Some r)"
      by blast
    have a: "made' = made @ (c # did)" using d(1) by simp
    have b: "c # did = take (length (c # did)) (c # cs)" using d(2) by simp
    have c1: "\<forall>i < length (c # did) - 1. fault (n + i) = None"
    proof (intro allI impI)
      fix i assume i: "i < length (c # did) - 1"
      show "fault (n + i) = None"
      proof (cases i)
        case 0 then show ?thesis using None by simp
      next
        case (Suc j)
        then have "j < length did - 1" using i by simp
        then show ?thesis using d(3) Suc by simp
      qed
    qed
    have e: "(case res of None \<Rightarrow> c # did = c # cs \<and> (\<forall>i < length (c # cs). fault (n + i) = None)
                     | Some r \<Rightarrow> c # did \<noteq> [] \<and> fault (n + (length (c # did) - 1)) = Some r)"
    proof (cases res)
      case rn: None
      then have dcs: "did = cs" and al: "\<forall>i < length cs. fault (Suc n + i) = None" using d(4) by simp_all
      have "\<forall>i < length (c # cs). fault (n + i) = None"
      proof (intro allI impI)
        fix i assume i: "i < length (c # cs)"
        show "fault (n + i) = None"
        proof (cases i)
          case 0 then show ?thesis using None by simp
        next
          case (Suc j)
          then have "j < length cs" using i by simp
          then show ?thesis using al Suc by simp
        qed
      qed
      then show ?thesis using rn dcs by simp
    next
      case (Some r)
      then have ne: "did \<noteq> []" and fl: "fault (Suc n + (length did - 1)) = Some r" using d(4) by simp_all
      have "n + (length (c # did) - 1) = Suc n + (length did - 1)" using ne by (cases did) simp_all
      then have "fault (n + (length (c # did) - 1)) = Some r" using fl by (simp only:)
      then show ?thesis using Some by simp
    qed
    show ?thesis using a b c1 e by blast
  qed
qed

lemma classify_all_succeeded:
  "\<forall>k job. js k = Some job \<longrightarrow> status job = str ''succeeded'' \<Longrightarrow>
   \<exists>s'. classify js ord (s, f, c) = (s', f, c)"
proof (induction ord arbitrary: s)
  case Nil show ?case by simp
next
  case (Cons k ks)
  show ?case
  proof (cases "js k")
    case None
    then show ?thesis using Cons.IH [OF Cons.prems, of s] by simp
  next
    case (Some job)
    then have "status job = str ''succeeded''" using Cons.prems by blast
    then show ?thesis using Some Cons.IH [OF Cons.prems, of "s @ [job]"] by simp
  qed
qed

lemma sortJobs_Nil: "sortJobs [] = []"
  by (simp add: sortJobs_def)

lemma passCalls_all_succeeded:
  assumes "\<forall>k job. jobs iface k = Some job \<longrightarrow> status job = str ''succeeded''"
  shows "passCalls iface ord = []"
proof -
  obtain s' where "classify (jobs iface) ord ([], [], []) = (s', [], [])"
    using classify_all_succeeded [OF assms, of ord "[]" "[]" "[]"] by blast
  then show ?thesis by (simp add: passCalls_def buckets_def sortJobs_Nil)
qed

lemma displayAndTruncateString_isDraw: "c \<in> set (displayAndTruncateString w y s sty) \<Longrightarrow> isDraw c"
  by (auto simp add: displayAndTruncateString_def)

lemma passCalls_isDraw: "c \<in> set (passCalls iface ord) \<Longrightarrow> isDraw c"
  by (auto simp add: passCalls_def split: prod.splits if_splits
        dest: displayAndTruncateString_isDraw)

lemma redrawScreen_eq:
  "redrawScreen fault ord ordc iface =
     (case redrawBody fault ord iface of
        (failed, Panicked r) \<Rightarrow>
           (if mutex failed then (failed, Blocked) else (fst (Close ordc failed), Panicked r))
      | other \<Rightarrow> other)"
proof -
  obtain s1 out where b: "redrawBody fault ord iface = (s1, out)"
    by (cases "redrawBody fault ord iface")
  obtain s2 out2 where c: "Close ordc s1 = (s2, out2)" by (cases "Close ordc s1")
  have o: "out2 = (if mutex s1 then Blocked else Returned)" using Close_outcome [of ordc s1] c by simp
  have u: "mutex s1 \<Longrightarrow> s2 = s1" using c by (simp add: Close_def)
  show ?thesis using b c o u by (cases out) (auto simp add: redrawScreen_def)
qed

text \<open>
  Claim C9. When every job of the registry has the status "succeeded" (none failed, none
  building; the empty registry too), a pass of \<^verbatim>\<open>redrawScreen\<close> writes no cell and does not
  flush: neither a job row nor the summary row. This holds for every order of the \<^verbatim>\<open>range\<close>
  and whatever the backend does. When \<^verbatim>\<open>Size\<close> does not panic and the mutex is free, the pass
  returns and the call of \<^verbatim>\<open>Size\<close> is all that happened.
\<close>

theorem redraw_draws_nothing_when_all_succeeded:
  assumes "\<forall>k job. jobs iface k = Some job \<longrightarrow> status job = str ''succeeded''"
  shows "filter isDraw (calls (screen (fst (redrawScreen fault ord ordc iface))))
           = filter isDraw (calls (screen iface))
       \<and> (fault 0 = None \<and> \<not> mutex iface \<longrightarrow>
            redrawScreen fault ord ordc iface
              = (iface\<lparr>screen := (screen iface)\<lparr>calls := calls (screen iface) @ [Size]\<rparr>\<rparr>, Returned))"
proof -
  have pc: "passCalls iface ord = []" using passCalls_all_succeeded [OF assms] .
  show ?thesis
  proof (cases "fault 0")
    case (Some r)
    then show ?thesis
      by (simp add: redrawScreen_eq redrawBody_eq Close_def Let_def split: prod.splits)
  next
    case None
    then show ?thesis
      by (simp add: redrawScreen_eq redrawBody_eq pc)
  qed
qed


theorem redraw_draws_nothing_when_all_succeeded_witness:
  "calls (screen (fst (redrawScreen noFault [str ''B''] [str ''B'']
      (fst (run [DoStartJob (str ''B'') (str ''imgB''), DoSucceedJob (str ''B'')]
              (NewInteractiveInterface (80, 24)))))))
     = [Init, Clear, Size]
   \<and> snd (redrawScreen noFault [str ''B''] [str ''B'']
      (fst (run [DoStartJob (str ''B'') (str ''imgB''), DoSucceedJob (str ''B'')]
              (NewInteractiveInterface (80, 24)))))
     = Returned"
proof -
  let ?s = "fst (run [DoStartJob (str ''B'') (str ''imgB''), DoSucceedJob (str ''B'')]
              (NewInteractiveInterface (80, 24)))"
  have h: "\<forall>k job. jobs ?s k = Some job \<longrightarrow> status job = str ''succeeded''"
    by (auto simp add: run_defs split: if_splits)
  have f: "noFault 0 = None" by (simp add: noFault_def)
  have m: "\<not> mutex ?s" by (simp add: run_defs)
  have c: "calls (screen ?s) = [Init, Clear]" by (simp add: run_defs)
  have "redrawScreen noFault [str ''B''] [str ''B''] ?s
      = (?s\<lparr>screen := (screen ?s)\<lparr>calls := calls (screen ?s) @ [Size]\<rparr>\<rparr>, Returned)"
    using redraw_draws_nothing_when_all_succeeded [OF h, of noFault "[str ''B'']" "[str ''B'']"] f m
    by blast
  then show ?thesis using c by simp
qed

section \<open>A backend failure during a pass\<close>

text \<open>
  Claim C5. Take a pass of \<^verbatim>\<open>redrawScreen\<close> that starts with the mutex free, and let \<open>pass\<close> be
  the calls it made on the screen (\<^verbatim>\<open>Size\<close>, cell writes, \<^verbatim>\<open>Show\<close>; an initial part of the calls
  of a complete pass). The pass never blocks. If it returns, no call of the complete pass
  panicked. If a call panicked with the value \<open>r\<close>, that call is the last one of \<open>pass\<close>, the
  next and last call on the screen is \<^verbatim>\<open>Fini\<close>, made by \<^verbatim>\<open>Close\<close> in the recovery handler with
  the mutex released again, \<^verbatim>\<open>running\<close> is cleared, and \<^verbatim>\<open>redrawScreen\<close> ends by panicking with
  the same \<open>r\<close>. \<^verbatim>\<open>Fini\<close> itself is taken not to panic.
\<close>

theorem redrawScreen_teardown_then_repanic:
  assumes "\<not> mutex iface"
  shows "\<exists>pass. pass \<noteq> [] \<and> Fini \<notin> set pass
          \<and> pass = take (length pass) (Size # passCalls iface ord)
          \<and> (\<forall>i < length pass - 1. fault i = None)
          \<and> (case snd (redrawScreen fault ord ordc iface) of
                Returned \<Rightarrow>
                  pass = Size # passCalls iface ord \<and> (\<forall>i < length pass. fault i = None)
                  \<and> calls (screen (fst (redrawScreen fault ord ordc iface)))
                      = calls (screen iface) @ pass
              | Panicked r \<Rightarrow>
                  fault (length pass - 1) = Some r
                  \<and> calls (screen (fst (redrawScreen fault ord ordc iface)))
                      = calls (screen iface) @ pass @ [Fini]
                  \<and> \<not> running (fst (redrawScreen fault ord ordc iface))
                  \<and> \<not> mutex (fst (redrawScreen fault ord ordc iface))
              | Blocked \<Rightarrow> False)"
proof (cases "fault 0")
  case (Some r)
  have "redrawScreen fault ord ordc iface
      = (fst (Close ordc (iface\<lparr>screen := (screen iface)\<lparr>calls := calls (screen iface) @ [Size]\<rparr>\<rparr>)),
         Panicked r)"
    using Some assms by (simp add: redrawScreen_eq redrawBody_eq)
  then show ?thesis using Some assms
    by (intro exI [of _ "[Size]"]) (simp add: Close_def Let_def split: prod.splits)
next
  case None
  let ?cs = "passCalls iface ord"
  let ?made = "calls (screen iface) @ [Size]"
  obtain made' res where pf: "perform fault 1 ?cs ?made = (made', res)"
    by (cases "perform fault 1 ?cs ?made")
  from perform_trace [OF pf] obtain did where
    d: "made' = ?made @ did" "did = take (length did) ?cs"
       "\<forall>i < length did - 1. fault (1 + i) = None"
       "(case res of None \<Rightarrow> did = ?cs \<and> (\<forall>i < length ?cs. fault (1 + i) = None)
                   | Some r \<Rightarrow> did \<noteq> [] \<and> fault (1 + (length did - 1)) = Some r)"
    by blast
  let ?pass = "Size # did"
  have nf: "Fini \<notin> set ?pass"
  proof
    assume "Fini \<in> set ?pass"
    then have "Fini \<in> set did" by simp
    then have "Fini \<in> set ?cs" using d(2) by (metis in_set_takeD)
    then have "isDraw Fini" by (rule passCalls_isDraw)
    then show False by simp
  qed
  have tk: "?pass = take (length ?pass) (Size # ?cs)" using d(2) by simp
  have before: "\<forall>i < length ?pass - 1. fault i = None"
  proof (intro allI impI)
    fix i assume i: "i < length ?pass - 1"
    show "fault i = None"
    proof (cases i)
      case 0 then show ?thesis using None by simp
    next
      case (Suc j)
      then have "j < length did - 1" using i by simp
      then show ?thesis using d(3) Suc by simp
    qed
  qed
  show ?thesis
  proof (cases res)
    case rn: None
    then have dcs: "did = ?cs" and al: "\<forall>i < length ?cs. fault (1 + i) = None"
      using d(4) by simp_all
    have all: "\<forall>i < length ?pass. fault i = None"
    proof (intro allI impI)
      fix i assume i: "i < length ?pass"
      show "fault i = None"
      proof (cases i)
        case 0 then show ?thesis using None by simp
      next
        case (Suc j)
        then have "j < length ?cs" using i dcs by simp
        then show ?thesis using al Suc by simp
      qed
    qed
    have "redrawScreen fault ord ordc iface
        = (iface\<lparr>screen := (screen iface)\<lparr>calls := made'\<rparr>\<rparr>, Returned)"
      using None assms pf rn by (simp add: redrawScreen_eq redrawBody_eq)
    then show ?thesis using nf tk before all dcs d(1)
      by (intro exI [of _ ?pass]) simp
  next
    case (Some r)
    have both: "did \<noteq> [] \<and> fault (1 + (length did - 1)) = Some r"
      using d(4) by (simp only: Some option.case simp_thms not_False_eq_True)
    then have ne: "did \<noteq> []" by (rule conjunct1)
    have fl: "fault (1 + (length did - 1)) = Some r" using both by (rule conjunct2)
    have "1 + (length did - 1) = length ?pass - 1" using ne by (cases did) simp_all
    then have fl': "fault (length ?pass - 1) = Some r" using fl by (simp only:)
    have "redrawScreen fault ord ordc iface
        = (fst (Close ordc (iface\<lparr>screen := (screen iface)\<lparr>calls := made'\<rparr>\<rparr>)), Panicked r)"
      using None assms pf Some by (simp add: redrawScreen_eq redrawBody_eq)
    then have "snd (redrawScreen fault ord ordc iface) = Panicked r"
      and "calls (screen (fst (redrawScreen fault ord ordc iface))) = calls (screen iface) @ ?pass @ [Fini]"
      and "\<not> running (fst (redrawScreen fault ord ordc iface))"
      and "\<not> mutex (fst (redrawScreen fault ord ordc iface))"
      using assms d(1) by (simp_all add: Close_def Let_def split: prod.splits)
    then show ?thesis using nf tk before fl'
      by (intro exI [of _ ?pass]) simp
  qed
qed


theorem redrawScreen_teardown_then_repanic_witness:
  "\<not> mutex (fst (run [DoStartJob (str ''a'') (str ''img'')] (NewInteractiveInterface (3, 24))))
   \<and> snd (redrawScreen (faultAt 2 (str ''bad'')) [str ''a''] [str ''a'']
        (fst (run [DoStartJob (str ''a'') (str ''img'')] (NewInteractiveInterface (3, 24)))))
       = Panicked (str ''bad'')
   \<and> calls (screen (fst (redrawScreen (faultAt 2 (str ''bad'')) [str ''a''] [str ''a'']
        (fst (run [DoStartJob (str ''a'') (str ''img'')] (NewInteractiveInterface (3, 24)))))))
       = [Init, Clear, Size,
          SetContent 0 0 91 (Foreground StyleDefault (NewRGBColor 190 190 0)),
          SetContent 1 0 98 (Foreground StyleDefault (NewRGBColor 190 190 0)),
          Fini]"
proof -
  let ?s = "fst (run [DoStartJob (str ''a'') (str ''img'')] (NewInteractiveInterface (3, 24)))"
  have m: "\<not> mutex ?s" by (simp add: run_defs)
  have e: "snd (redrawScreen (faultAt 2 (str ''bad'')) [str ''a''] [str ''a''] ?s)
       = Panicked (str ''bad'')
   \<and> calls (screen (fst (redrawScreen (faultAt 2 (str ''bad'')) [str ''a''] [str ''a''] ?s)))
       = [Init, Clear, Size,
          SetContent 0 0 91 (Foreground StyleDefault (NewRGBColor 190 190 0)),
          SetContent 1 0 98 (Foreground StyleDefault (NewRGBColor 190 190 0)),
          Fini]"
    by code_simp
  show ?thesis
    using m e redrawScreen_teardown_then_repanic
            [OF m, where fault = "faultAt 2 (str ''bad'')" and ord = "[str ''a'']" and ordc = "[str ''a'']"]
    by blast
qed

section \<open>The summary row\<close>

lemma classify_eq:
  "classify js ord (s, f, c) =
     (s @ filter (\<lambda>j. status j = str ''succeeded'') (List.map_filter js ord),
      f @ filter (\<lambda>j. status j \<noteq> str ''succeeded'' \<and> status j = str ''failed'') (List.map_filter js ord),
      c @ filter (\<lambda>j. status j \<noteq> str ''succeeded'' \<and> status j \<noteq> str ''failed'') (List.map_filter js ord))"
proof (induction ord arbitrary: s f c)
  case Nil show ?case by (simp add: map_filter_simps)
next
  case (Cons k ks)
  show ?case
  proof (cases "js k")
    case None then show ?thesis using Cons.IH by (simp add: map_filter_simps)
  next
    case (Some job) then show ?thesis using Cons.IH by (simp add: map_filter_simps)
  qed
qed

lemma length_filter_map_filter:
  "distinct ord \<Longrightarrow>
   length (filter P (List.map_filter js ord)) = card {k \<in> set ord. \<exists>job. js k = Some job \<and> P job}"
proof (induction ord)
  case Nil show ?case by (simp add: map_filter_simps)
next
  case (Cons k ks)
  let ?S = "{x \<in> set ks. \<exists>job. js x = Some job \<and> P job}"
  have ih: "length (filter P (List.map_filter js ks)) = card ?S" using Cons by simp
  have fin: "finite ?S" by simp
  have nk: "k \<notin> ?S" using Cons.prems by simp
  show ?case
  proof (cases "\<exists>job. js k = Some job \<and> P job")
    case True
    then obtain job where j: "js k = Some job" "P job" by blast
    have "{x \<in> set (k # ks). \<exists>job. js x = Some job \<and> P job} = insert k ?S" using j by auto
    then show ?thesis using ih fin nk j by (simp add: map_filter_simps)
  next
    case False
    have "{x \<in> set (k # ks). \<exists>job. js x = Some job \<and> P job} = ?S" using False by auto
    then show ?thesis using ih False by (cases "js k") (auto simp add: map_filter_simps)
  qed
qed

lemma bucket_count:
  assumes "rangeOrder js ord"
  shows "length (filter P (List.map_filter js ord)) = card {k. \<exists>job. js k = Some job \<and> P job}"
proof -
  have d: "distinct ord" and s: "set ord = dom js" using assms by (simp_all add: rangeOrder_def)
  have "{k \<in> set ord. \<exists>job. js k = Some job \<and> P job} = {k. \<exists>job. js k = Some job \<and> P job}"
    using s by auto
  then show ?thesis using length_filter_map_filter [OF d, of P js] by simp
qed

lemma length_sortJobs: "length (sortJobs xs) = length xs"
  by (simp add: sortJobs_def)

lemma frame_last:
  "\<exists>jobRows. frame h sty s f c =
     jobRows @ [(h - 1, summaryLine (length f) (length s) (length c),
                 Foreground sty (NewRGBColor 190 190 190))]"
  by (simp add: frame_def Let_def split: prod.splits)

lemma buckets_lengths:
  assumes "rangeOrder js ord" and "buckets js ord = (s, f, c)"
  shows "length s = card {k. \<exists>job. js k = Some job \<and> status job = str ''succeeded''}"
    and "length f = card {k. \<exists>job. js k = Some job \<and> status job = str ''failed''}"
    and "length c = card {k. \<exists>job. js k = Some job \<and> status job \<noteq> str ''succeeded''
                               \<and> status job \<noteq> str ''failed''}"
proof -
  let ?J = "List.map_filter js ord"
  have ne: "str ''failed'' \<noteq> str ''succeeded''" by (simp add: str_def)
  have s: "s = sortJobs (filter (\<lambda>j. status j = str ''succeeded'') ?J)"
    and f: "f = sortJobs (filter (\<lambda>j. status j \<noteq> str ''succeeded'' \<and> status j = str ''failed'') ?J)"
    and c: "c = sortJobs (filter (\<lambda>j. status j \<noteq> str ''succeeded'' \<and> status j \<noteq> str ''failed'') ?J)"
    using assms(2) by (simp_all add: buckets_def classify_eq [of js ord "[]" "[]" "[]"])
  show "length s = card {k. \<exists>job. js k = Some job \<and> status job = str ''succeeded''}"
    unfolding s length_sortJobs by (rule bucket_count [OF assms(1)])
  have "length f = card {k. \<exists>job. js k = Some job \<and> (status job \<noteq> str ''succeeded'' \<and> status job = str ''failed'')}"
    unfolding f length_sortJobs by (rule bucket_count [OF assms(1)])
  moreover have "{k. \<exists>job. js k = Some job \<and> (status job \<noteq> str ''succeeded'' \<and> status job = str ''failed'')}
      = {k. \<exists>job. js k = Some job \<and> status job = str ''failed''}" using ne by auto
  ultimately show "length f = card {k. \<exists>job. js k = Some job \<and> status job = str ''failed''}" by simp
  show "length c = card {k. \<exists>job. js k = Some job \<and> status job \<noteq> str ''succeeded''
                               \<and> status job \<noteq> str ''failed''}"
    unfolding c length_sortJobs by (rule bucket_count [OF assms(1)])
qed


lemma perform_all_None: "\<forall>i. fault i = None \<Longrightarrow> perform fault n cs made = (made @ cs, None)"
  by (induction cs arbitrary: n made) simp_all

lemma summaryLine_text:
  "summaryLine F S A =
     itoa F @ str ''/'' @ itoa (F + A + S) @ str '' failed, ''
     @ itoa S @ str ''/'' @ itoa (F + A + S) @ str '' completed, ''
     @ itoa A @ str ''/'' @ itoa (F + A + S) @ str '' building''"
proof -
  have "A + F + S = F + A + S" by simp
  then show ?thesis unfolding summaryLine_def Let_def by (simp only:)
qed

lemma displayAndTruncateString_cells:
  "displayAndTruncateString w y s sty =
     map (\<lambda>i. SetContent (int i) y ((s @ replicate (nat w - length s) 32) ! i) sty) [0 ..< nat w]"
proof (cases "nat w \<le> length s")
  case True
  then have "displayAndTruncateString w y s sty
      = map (\<lambda>i. SetContent (int i) y (s ! i) sty) [0 ..< nat w]"
    by (simp add: displayAndTruncateString_def min_def)
  also have "\<dots> = map (\<lambda>i. SetContent (int i) y ((s @ replicate (nat w - length s) 32) ! i) sty) [0 ..< nat w]"
    using True by (intro map_cong) (simp_all add: nth_append)
  finally show ?thesis .
next
  case False
  then have le: "length s \<le> nat w" by simp
  have split: "[0 ..< nat w] = [0 ..< length s] @ [length s ..< nat w]"
    using le by (metis le0 le_Suc_ex upt_add_eq_append)
  have a: "map (\<lambda>i. SetContent (int i) y (s ! i) sty) [0 ..< length s]
      = map (\<lambda>i. SetContent (int i) y ((s @ replicate (nat w - length s) 32) ! i) sty) [0 ..< length s]"
    by (intro map_cong) (simp_all add: nth_append)
  have b: "map (\<lambda>i. SetContent (int i) y 32 sty) [length s ..< nat w]
      = map (\<lambda>i. SetContent (int i) y ((s @ replicate (nat w - length s) 32) ! i) sty) [length s ..< nat w]"
  proof (intro map_cong refl)
    fix i assume "i \<in> set [length s ..< nat w]"
    then have i: "length s \<le> i" "i - length s < nat w - length s" by auto
    have "(s @ replicate (nat w - length s) 32) ! i = replicate (nat w - length s) 32 ! (i - length s)"
      using i(1) by (simp add: nth_append)
    also have "\<dots> = 32" using i(2) by (rule nth_replicate)
    finally show "SetContent (int i) y 32 sty
        = SetContent (int i) y ((s @ replicate (nat w - length s) 32) ! i) sty" by simp
  qed
  have "displayAndTruncateString w y s sty
      = map (\<lambda>i. SetContent (int i) y (s ! i) sty) [0 ..< length s]
        @ map (\<lambda>i. SetContent (int i) y 32 sty) [length s ..< nat w]"
    using le by (simp add: displayAndTruncateString_def min_def)
  then show ?thesis unfolding a b split by simp
qed

lemma length_displayAndTruncateString: "length (displayAndTruncateString w y s sty) = nat w"
  by (simp add: displayAndTruncateString_cells)

lemma drop_tail: "cs = pre @ rest \<Longrightarrow> drop (length cs - length rest) cs = rest"
  by simp

text \<open>
  Claim C8, amended. Take a pass of \<^verbatim>\<open>redrawScreen\<close> on a registry with at least one job that
  has not succeeded, with the mutex free and a backend that does not panic. The pass
  returns, and the last row it writes before the flush is the row \<open>height - 1\<close> with the
  text "F/T failed, S/T completed, A/T building", where \<open>F\<close>, \<open>S\<close> and \<open>A\<close> count the jobs of
  the registry with status "failed", with status "succeeded", and with any other status,
  and \<open>T = F + A + S\<close>. Writing the row sets the cells \<open>0 .. width - 1\<close> of that line to the
  text, cut at the width and padded with spaces.
\<close>

theorem summary_row_of_a_pass:
  assumes "rangeOrder (jobs iface) ord" and "\<not> mutex iface" and "\<forall>i. fault i = None"
    and "\<exists>k job. jobs iface k = Some job \<and> status job \<noteq> str ''succeeded''"
    and "F = card {k. \<exists>job. jobs iface k = Some job \<and> status job = str ''failed''}"
    and "S = card {k. \<exists>job. jobs iface k = Some job \<and> status job = str ''succeeded''}"
    and "A = card {k. \<exists>job. jobs iface k = Some job \<and> status job \<noteq> str ''succeeded''
                        \<and> status job \<noteq> str ''failed''}"
    and "text = itoa F @ str ''/'' @ itoa (F + A + S) @ str '' failed, ''
              @ itoa S @ str ''/'' @ itoa (F + A + S) @ str '' completed, ''
              @ itoa A @ str ''/'' @ itoa (F + A + S) @ str '' building''"
  shows "snd (redrawScreen fault ord ordc iface) = Returned
       \<and> (\<exists>jobCalls.
             calls (screen (fst (redrawScreen fault ord ordc iface)))
               = calls (screen iface) @ [Size] @ jobCalls
                 @ displayAndTruncateString (fst (dims (screen iface)))
                     (snd (dims (screen iface)) - 1) text
                     (Foreground (screenStyle iface) (NewRGBColor 190 190 190))
                 @ [Show])
       \<and> displayAndTruncateString (fst (dims (screen iface))) (snd (dims (screen iface)) - 1) text
             (Foreground (screenStyle iface) (NewRGBColor 190 190 190))
           = map (\<lambda>i. SetContent (int i) (snd (dims (screen iface)) - 1)
                        ((text @ replicate (nat (fst (dims (screen iface))) - length text) 32) ! i)
                        (Foreground (screenStyle iface) (NewRGBColor 190 190 190)))
               [0 ..< nat (fst (dims (screen iface)))]"
proof -
  obtain s f c where b: "buckets (jobs iface) ord = (s, f, c)"
    by (cases "buckets (jobs iface) ord") auto
  note len = buckets_lengths [OF assms(1) b]
  have fin: "finite (dom (jobs iface))" using assms(1) by (metis rangeOrder_def List.finite_set)
  let ?N = "{k. \<exists>job. jobs iface k = Some job \<and> status job \<noteq> str ''succeeded''}"
  let ?Fs = "{k. \<exists>job. jobs iface k = Some job \<and> status job = str ''failed''}"
  let ?As = "{k. \<exists>job. jobs iface k = Some job \<and> status job \<noteq> str ''succeeded''
                        \<and> status job \<noteq> str ''failed''}"
  have un: "?N \<subseteq> ?Fs \<union> ?As" by auto
  have finF: "finite ?Fs" by (rule finite_subset [OF _ fin]) auto
  have finA: "finite ?As" by (rule finite_subset [OF _ fin]) auto
  have "?Fs \<union> ?As \<noteq> {}" using assms(4) un by blast
  then have "card ?Fs + card ?As \<noteq> 0" using finF finA by auto
  then have nz: "length f + length c \<noteq> 0" using len by simp
  obtain jobRows where fr: "frame (snd (dims (screen iface))) (screenStyle iface) s f c =
     jobRows @ [(snd (dims (screen iface)) - 1, summaryLine (length f) (length s) (length c),
                 Foreground (screenStyle iface) (NewRGBColor 190 190 190))]"
    using frame_last by blast
  have tx: "summaryLine (length f) (length s) (length c) = text"
    using len assms(5-8) by (simp add: summaryLine_text)
  let ?disp = "\<lambda>(y, s, sty). displayAndTruncateString (fst (dims (screen iface))) y s sty"
  have pc: "passCalls iface ord =
      concat (map ?disp jobRows)
      @ displayAndTruncateString (fst (dims (screen iface))) (snd (dims (screen iface)) - 1) text
          (Foreground (screenStyle iface) (NewRGBColor 190 190 190))
      @ [Show]"
    using b nz fr tx by (simp add: passCalls_def)
  have r: "redrawScreen fault ord ordc iface
      = (iface\<lparr>screen := (screen iface)\<lparr>calls := (calls (screen iface) @ [Size]) @ passCalls iface ord\<rparr>\<rparr>,
         Returned)"
    using assms(2,3) by (simp add: redrawScreen_eq redrawBody_eq perform_all_None)
  have 1: "snd (redrawScreen fault ord ordc iface) = Returned" using r by simp
  have 2: "\<exists>jobCalls.
             calls (screen (fst (redrawScreen fault ord ordc iface)))
               = calls (screen iface) @ [Size] @ jobCalls
                 @ displayAndTruncateString (fst (dims (screen iface)))
                     (snd (dims (screen iface)) - 1) text
                     (Foreground (screenStyle iface) (NewRGBColor 190 190 190))
                 @ [Show]"
    unfolding r pc by (intro exI [of _ "concat (map ?disp jobRows)"]) simp
  show ?thesis using 1 2 displayAndTruncateString_cells by blast
qed


theorem summary_row_of_a_pass_witness:
  "rangeOrder (jobs (fst (run [DoStartJob (str ''A'') (str ''imgA''), DoStartJob (str ''B'') (str ''imgB''),
                              DoStartJob (str ''C'') (str ''imgC''),
                              DoFailJob (str ''A'') (str ''boom''), DoSucceedJob (str ''B'')]
                            (NewInteractiveInterface (40, 24))))) [str ''C'', str ''A'', str ''B'']
   \<and> \<not> mutex (fst (run [DoStartJob (str ''A'') (str ''imgA''), DoStartJob (str ''B'') (str ''imgB''),
                              DoStartJob (str ''C'') (str ''imgC''),
                              DoFailJob (str ''A'') (str ''boom''), DoSucceedJob (str ''B'')]
                            (NewInteractiveInterface (40, 24))))
   \<and> snd (redrawScreen noFault [str ''C'', str ''A'', str ''B''] [str ''A'', str ''B'', str ''C'']
        (fst (run [DoStartJob (str ''A'') (str ''imgA''), DoStartJob (str ''B'') (str ''imgB''),
                   DoStartJob (str ''C'') (str ''imgC''),
                   DoFailJob (str ''A'') (str ''boom''), DoSucceedJob (str ''B'')]
                (NewInteractiveInterface (40, 24))))) = Returned
   \<and> drop (length (calls (screen (fst
        (redrawScreen noFault [str ''C'', str ''A'', str ''B''] [str ''A'', str ''B'', str ''C'']
          (fst (run [DoStartJob (str ''A'') (str ''imgA''), DoStartJob (str ''B'') (str ''imgB''),
                     DoStartJob (str ''C'') (str ''imgC''),
                     DoFailJob (str ''A'') (str ''boom''), DoSucceedJob (str ''B'')]
                  (NewInteractiveInterface (40, 24)))))))) - 41)
       (calls (screen (fst
        (redrawScreen noFault [str ''C'', str ''A'', str ''B''] [str ''A'', str ''B'', str ''C'']
          (fst (run [DoStartJob (str ''A'') (str ''imgA''), DoStartJob (str ''B'') (str ''imgB''),
                     DoStartJob (str ''C'') (str ''imgC''),
                     DoFailJob (str ''A'') (str ''boom''), DoSucceedJob (str ''B'')]
                  (NewInteractiveInterface (40, 24))))))))
       = displayAndTruncateString 40 23 (str ''1/3 failed, 1/3 completed, 1/3 building'')
           (Foreground StyleDefault (NewRGBColor 190 190 190)) @ [Show]"
proof -
  let ?s = "fst (run [DoStartJob (str ''A'') (str ''imgA''), DoStartJob (str ''B'') (str ''imgB''),
                   DoStartJob (str ''C'') (str ''imgC''),
                   DoFailJob (str ''A'') (str ''boom''), DoSucceedJob (str ''B'')]
                (NewInteractiveInterface (40, 24)))"
  have r: "rangeOrder (jobs ?s) [str ''C'', str ''A'', str ''B'']"
    by (auto simp add: rangeOrder_def run_defs str_def)
  have m: "\<not> mutex ?s" by (simp add: run_defs str_def)
  have f: "\<forall>i. noFault i = None" by (simp add: noFault_def)
  have ex: "\<exists>k job. jobs ?s k = Some job \<and> status job \<noteq> str ''succeeded''"
    by (intro exI [of _ "str ''C''"]) (simp add: run_defs str_def)
  have F: "(1::nat) = card {k. \<exists>job. jobs ?s k = Some job \<and> status job = str ''failed''}"
  proof -
    have "{k. \<exists>job. jobs ?s k = Some job \<and> status job = str ''failed''} = {str ''A''}"
      by (auto simp add: run_defs str_def split: if_splits)
    then show ?thesis by simp
  qed
  have S: "(1::nat) = card {k. \<exists>job. jobs ?s k = Some job \<and> status job = str ''succeeded''}"
  proof -
    have "{k. \<exists>job. jobs ?s k = Some job \<and> status job = str ''succeeded''} = {str ''B''}"
      by (auto simp add: run_defs str_def split: if_splits)
    then show ?thesis by simp
  qed
  have A: "(1::nat) = card {k. \<exists>job. jobs ?s k = Some job \<and> status job \<noteq> str ''succeeded''
                        \<and> status job \<noteq> str ''failed''}"
  proof -
    have "{k. \<exists>job. jobs ?s k = Some job \<and> status job \<noteq> str ''succeeded''
                        \<and> status job \<noteq> str ''failed''} = {str ''C''}"
      by (auto simp add: run_defs str_def split: if_splits)
    then show ?thesis by simp
  qed
  have t: "str ''1/3 failed, 1/3 completed, 1/3 building''
         = itoa 1 @ str ''/'' @ itoa (1 + 1 + 1) @ str '' failed, ''
              @ itoa 1 @ str ''/'' @ itoa (1 + 1 + 1) @ str '' completed, ''
              @ itoa 1 @ str ''/'' @ itoa (1 + 1 + 1) @ str '' building''"
    by (simp add: itoa.simps str_def)
  have d: "dims (screen ?s) = (40, 24)" and y: "screenStyle ?s = StyleDefault"
    and c: "length (calls (screen ?s)) = 2"
    by (simp_all add: run_defs str_def)
  note T = summary_row_of_a_pass [OF r m f ex F S A t,
             where ordc = "[str ''A'', str ''B'', str ''C'']"]
  have ret: "snd (redrawScreen noFault [str ''C'', str ''A'', str ''B''] [str ''A'', str ''B'', str ''C''] ?s)
      = Returned" using T by blast
  let ?cs = "calls (screen (fst
        (redrawScreen noFault [str ''C'', str ''A'', str ''B''] [str ''A'', str ''B'', str ''C''] ?s)))"
  let ?row = "displayAndTruncateString 40 23 (str ''1/3 failed, 1/3 completed, 1/3 building'')
           (Foreground StyleDefault (NewRGBColor 190 190 190))"
  have dd: "fst (dims (screen ?s)) = 40" "snd (dims (screen ?s)) - 1 = 23"
    using d by simp_all
  have T2: "\<exists>jobCalls. ?cs = calls (screen ?s) @ [Size] @ jobCalls @ ?row @ [Show]"
    using T [THEN conjunct2, THEN conjunct1] unfolding dd y .
  then obtain jobCalls where cs: "?cs = calls (screen ?s) @ [Size] @ jobCalls @ ?row @ [Show]" ..
  have cs': "?cs = (calls (screen ?s) @ [Size] @ jobCalls) @ (?row @ [Show])"
    using cs by (simp only: append_assoc)
  have lr: "length (?row @ [Show]) = 41" by (simp add: length_displayAndTruncateString)
  have e: "drop (length ?cs - 41) ?cs = ?row @ [Show]"
    using drop_tail [OF cs'] unfolding lr .
  show ?thesis using r m ret e by (intro conjI)
qed

text \<open>
  Claim C8 as stated speaks of every render pass. A pass over a registry whose jobs have
  all succeeded returns before anything is drawn: with two succeeded jobs the row
  "0/2 failed, 2/2 completed, 0/2 building" is not written, the call of \<^verbatim>\<open>Size\<close> is all the
  pass does.
\<close>

theorem no_summary_row_when_all_succeeded:
  "snd (redrawScreen noFault [str ''A'', str ''B''] [str ''A'', str ''B'']
        (fst (run [DoStartJob (str ''A'') (str ''imgA''), DoStartJob (str ''B'') (str ''imgB''),
                   DoSucceedJob (str ''A''), DoSucceedJob (str ''B'')]
                (NewInteractiveInterface (80, 24))))) = Returned
   \<and> calls (screen (fst (redrawScreen noFault [str ''A'', str ''B''] [str ''A'', str ''B'']
        (fst (run [DoStartJob (str ''A'') (str ''imgA''), DoStartJob (str ''B'') (str ''imgB''),
                   DoSucceedJob (str ''A''), DoSucceedJob (str ''B'')]
                (NewInteractiveInterface (80, 24)))))))
       = [Init, Clear, Size]
   \<and> displayAndTruncateString 80 23 (str ''0/2 failed, 2/2 completed, 0/2 building'')
           (Foreground StyleDefault (NewRGBColor 190 190 190)) \<noteq> []"
  by code_simp

section \<open>The layout\<close>

lemma linesPerJob_floor:
  assumes "n > 0"
  shows "linesPerJob H n = max 2 ((H - 1) div n)"
proof (cases "H - 1 \<ge> 0")
  case True
  then have "(H - 1) sdiv n = (H - 1) div n" using assms
    by (simp add: signed_divide_int_def sgn_if)
  then show ?thesis by (simp add: linesPerJob_def Let_def max_def)
next
  case False
  then have neg: "H - 1 < 0" by simp
  then have "(H - 1) div n < 0" using assms by (rule div_neg_pos_less0)
  moreover have "(H - 1) sdiv n \<le> 0"
  proof -
    have "0 < \<bar>n\<bar>" using assms by simp
    then have "\<bar>H - 1\<bar> div \<bar>n\<bar> \<ge> 0"
      using pos_imp_zdiv_nonneg_iff [of "\<bar>n\<bar>" "\<bar>H - 1\<bar>"] by simp
    then show ?thesis using neg assms by (simp add: signed_divide_int_def sgn_if)
  qed
  ultimately show ?thesis by (simp add: linesPerJob_def Let_def max_def)
qed

lemma linesPerJob_ge2: "linesPerJob H n \<ge> 2"
  by (simp add: linesPerJob_def Let_def)

lemma remainder_bounds:
  assumes "n > 0" and "numRemainderLines H n > 0"
  shows "numRemainderLines H n < n"
    and "H - 1 = linesPerJob H n * n + numRemainderLines H n"
proof -
  let ?L = "linesPerJob H n"
  show eq: "H - 1 = ?L * n + numRemainderLines H n" by (simp add: numRemainderLines_def)
  have L: "?L = max 2 ((H - 1) div n)" using linesPerJob_floor [OF assms(1)] .
  have "(H - 1) div n \<ge> 2"
  proof (rule ccontr)
    assume "\<not> (H - 1) div n \<ge> 2"
    then have lt: "(H - 1) div n < 2" by simp
    then have "?L = 2" using L by simp
    moreover have "H - 1 < 2 * n"
    proof -
      have q: "(H - 1) div n \<le> 1" using lt by simp
      have "n * ((H - 1) div n) \<le> n * 1" using q assms(1) by (intro mult_left_mono) simp_all
      moreover have "(H - 1) mod n < n" using assms(1) by simp
      moreover have "H - 1 = n * ((H - 1) div n) + (H - 1) mod n" by simp
      ultimately show ?thesis by linarith
    qed
    ultimately have "numRemainderLines H n < 0" by (simp add: numRemainderLines_def)
    then show False using assms(2) by simp
  qed
  then have "?L = (H - 1) div n" using L by simp
  then have "numRemainderLines H n = (H - 1) mod n"
    by (simp add: numRemainderLines_def minus_div_mult_eq_mod)
  then show "numRemainderLines H n < n" using assms(1) by simp
qed

lemma length_Peek: "int (length (Peek k b)) \<le> max 0 k"
  by (simp add: Peek_def)


lemma allocate_break:
  "cur + 1 \<ge> H - 2 \<Longrightarrow> allocate H L js (cur, rem) = ([], (cur, rem))"
  by (cases js) simp_all

lemma allocate_append:
  "allocate H L (xs @ ys) (cur, rem) =
     (case allocate H L xs (cur, rem) of
        (b1, st1) \<Rightarrow> (case allocate H L ys st1 of (b2, st2) \<Rightarrow> (b1 @ b2, st2)))"
proof (induction xs arbitrary: cur rem)
  case Nil
  show ?case by (simp split: prod.splits)
next
  case (Cons job rest)
  show ?case
  proof (cases "cur + 1 \<ge> H - 2")
    case True
    then show ?thesis by (simp add: allocate_break)
  next
    case False
    let ?k = "if rem > 0 then L - 1 + 1 else L - 1"
    let ?rem = "if rem > 0 then rem - 1 else rem"
    let ?cur = "cur + 1 + int (length (Peek ?k (lastLogLines job)))"
    have ih: "allocate H L (rest @ ys) (?cur, ?rem) =
       (case allocate H L rest (?cur, ?rem) of
          (b1, st1) \<Rightarrow> (case allocate H L ys st1 of (b2, st2) \<Rightarrow> (b1 @ b2, st2)))"
      by (rule Cons.IH)
    show ?thesis using False ih
      by (simp add: Let_def split: prod.splits)
  qed
qed

lemma allocate_shape:
  "allocate H L js (cur, rem) = (bs, fin) \<Longrightarrow>
   map fst bs = take (length bs) js
   \<and> (\<forall>i < length bs. snd (snd (bs ! i)) = L - 1 + (if int i < rem then 1 else 0))"
proof (induction js arbitrary: cur rem bs fin)
  case Nil
  then show ?case by simp
next
  case (Cons job rest)
  show ?case
  proof (cases "cur + 1 \<ge> H - 2")
    case True
    then have "bs = []" using Cons.prems by simp
    then show ?thesis by simp
  next
    case False
    let ?k = "if rem > 0 then L - 1 + 1 else L - 1"
    let ?rem = "if rem > 0 then rem - 1 else rem"
    let ?cur = "cur + 1 + int (length (Peek ?k (lastLogLines job)))"
    obtain bs' fin' where r: "allocate H L rest (?cur, ?rem) = (bs', fin')"
      by (cases "allocate H L rest (?cur, ?rem)")
    have bs: "bs = (job, cur, ?k) # bs'" using Cons.prems False r by (simp add: Let_def)
    from Cons.IH [OF r] have
      ih1: "map fst bs' = take (length bs') rest" and
      ih2: "\<forall>i < length bs'. snd (snd (bs' ! i)) = L - 1 + (if int i < ?rem then 1 else 0)"
      by simp_all
    have 1: "map fst bs = take (length bs) (job # rest)" using bs ih1 by simp
    have 2: "\<forall>i < length bs. snd (snd (bs ! i)) = L - 1 + (if int i < rem then 1 else 0)"
    proof (intro allI impI)
      fix i assume i: "i < length bs"
      show "snd (snd (bs ! i)) = L - 1 + (if int i < rem then 1 else 0)"
      proof (cases i)
        case 0
        then show ?thesis using bs by simp
      next
        case (Suc j)
        then have j: "j < length bs'" using i bs by simp
        have "snd (snd (bs' ! j)) = L - 1 + (if int j < ?rem then 1 else 0)" using ih2 j by blast
        moreover have "(int j < ?rem) = (int (Suc j) < rem)" by auto
        ultimately show ?thesis using bs Suc by simp
      qed
    qed
    show ?thesis using 1 2 by blast
  qed
qed

lemma allocate_reaches:
  "allocate H L js (cur, rem) = (bs, fin) \<Longrightarrow> 0 \<le> L \<Longrightarrow> rem \<le> int (length js) \<Longrightarrow>
   (rem > 0 \<longrightarrow> cur + (rem - 1) * (L + 1) + 1 < H - 2) \<Longrightarrow>
   rem \<le> int (length bs)"
proof (induction js arbitrary: cur rem bs fin)
  case Nil
  then show ?case by simp
next
  case (Cons job rest)
  show ?case
  proof (cases "rem > 0")
    case False
    then show ?thesis by simp
  next
    case True
    have fit: "cur + (rem - 1) * (L + 1) + 1 < H - 2" using Cons.prems(4) True by simp
    have "(rem - 1) * (L + 1) \<ge> 0" using True Cons.prems(2) by simp
    then have nb: "\<not> cur + 1 \<ge> H - 2" using fit by linarith
    let ?shown = "int (length (Peek L (lastLogLines job)))"
    obtain bs' fin' where r: "allocate H L rest (cur + 1 + ?shown, rem - 1) = (bs', fin')"
      by (cases "allocate H L rest (cur + 1 + ?shown, rem - 1)")
    have bs: "bs = (job, cur, L) # bs'" using Cons.prems(1) nb True r by (simp add: Let_def)
    have sh: "?shown \<le> L" using length_Peek [of L "lastLogLines job"] Cons.prems(2) by simp
    have le: "rem - 1 \<le> int (length rest)" using Cons.prems(3) by simp
    have fit': "rem - 1 > 0 \<longrightarrow> (cur + 1 + ?shown) + (rem - 1 - 1) * (L + 1) + 1 < H - 2"
    proof
      assume "rem - 1 > 0"
      have "(rem - 1) * (L + 1) = (rem - 1 - 1) * (L + 1) + (L + 1)" by (simp add: algebra_simps)
      then show "(cur + 1 + ?shown) + (rem - 1 - 1) * (L + 1) + 1 < H - 2" using fit sh by linarith
    qed
    have "rem - 1 \<le> int (length bs')" using Cons.IH [OF r Cons.prems(2) le fit'] .
    then show ?thesis using bs by simp
  qed
qed


lemma allocate_stops:
  "allocate H L js (cur, rem) = (bs, (cur', rem')) \<Longrightarrow> length bs < length js \<Longrightarrow>
   cur' + 1 \<ge> H - 2"
proof (induction js arbitrary: cur rem bs)
  case Nil
  then show ?case by simp
next
  case (Cons job rest)
  show ?case
  proof (cases "cur + 1 \<ge> H - 2")
    case True
    then show ?thesis using Cons.prems(1) by simp
  next
    case False
    let ?k = "if rem > 0 then L - 1 + 1 else L - 1"
    let ?rem = "if rem > 0 then rem - 1 else rem"
    let ?cur = "cur + 1 + int (length (Peek ?k (lastLogLines job)))"
    obtain bs' fin' where r: "allocate H L rest (?cur, ?rem) = (bs', fin')"
      by (cases "allocate H L rest (?cur, ?rem)")
    have bs: "bs = (job, cur, ?k) # bs'" and fin: "fin' = (cur', rem')"
      using Cons.prems(1) False r by (simp_all add: Let_def)
    have "length bs' < length rest" using Cons.prems(2) bs by simp
    then show ?thesis using Cons.IH [OF r [unfolded fin]] by simp
  qed
qed

lemma layoutJobs_blocks:
  assumes "layoutJobs H f c = (fb, cb)" and "n = int (length f) + int (length c)"
  shows "\<exists>fin. allocate H (linesPerJob H n) (f @ c) (0, numRemainderLines H n) = (fb @ cb, fin)"
    and "map fst fb = take (length fb) f"
    and "map fst cb = take (length cb) c"
    and "cb \<noteq> [] \<longrightarrow> length fb = length f"
proof -
  let ?L = "linesPerJob H n"
  let ?r = "numRemainderLines H n"
  obtain b1 cur1 rem1 where a1: "allocate H ?L f (0, ?r) = (b1, (cur1, rem1))"
    by (cases "allocate H ?L f (0, ?r)") auto
  obtain b2 st2 where a2: "allocate H ?L c (cur1, rem1) = (b2, st2)"
    by (cases "allocate H ?L c (cur1, rem1)")
  have fb: "fb = b1" and cb: "cb = b2"
    using assms a1 a2 by (simp_all add: layoutJobs_def Let_def)
  have "allocate H ?L (f @ c) (0, ?r) = (b1 @ b2, st2)"
    using a1 a2 by (simp add: allocate_append)
  then show "\<exists>fin. allocate H ?L (f @ c) (0, ?r) = (fb @ cb, fin)" using fb cb by blast
  show "map fst fb = take (length fb) f" using allocate_shape [OF a1] fb by simp
  show "map fst cb = take (length cb) c" using allocate_shape [OF a2] cb by simp
  show "cb \<noteq> [] \<longrightarrow> length fb = length f"
  proof
    assume ne: "cb \<noteq> []"
    show "length fb = length f"
    proof (rule ccontr)
      assume "length fb \<noteq> length f"
      moreover have "length b1 \<le> length f"
      proof -
        have "map fst b1 = take (length b1) f" using allocate_shape [OF a1] by (rule conjunct1)
        then have "length (map fst b1) = length (take (length b1) f)" by (rule arg_cong)
        then show ?thesis by simp
      qed
      ultimately have "length b1 < length f" using fb by simp
      then have "cur1 + 1 \<ge> H - 2" using allocate_stops [OF a1] by simp
      then have "b2 = []" using a2 by (simp add: allocate_break)
      then show False using ne cb by simp
    qed
  qed
qed



lemma first_remainder_fit:
  fixes L r n H :: int
  assumes "L \<ge> 2" and "0 < r" and "r < n" and "H - 1 = L * n + r"
  shows "0 + (r - 1) * (L + 1) + 1 < H - 2"
proof -
  have "r \<le> n - 1" using assms(3) by simp
  then have "L * r \<le> L * (n - 1)" using assms(1) by (intro mult_left_mono) simp_all
  also have "L * (n - 1) = L * n - L" by (simp only: right_diff_distrib mult_1_right)
  finally have m: "L * r \<le> L * n - L" .
  have e: "(r - 1) * (L + 1) = L * r + r - L - 1"
    by (simp add: algebra_simps)
  have "(r - 1) * (L + 1) + 1 \<le> L * n + r - 2 * L" unfolding e using m by linarith
  then have "(r - 1) * (L + 1) + 1 < L * n + r - 2" using assms(1) by linarith
  then show ?thesis using assms(4) by linarith
qed

lemma layout_first_remainder_jobs:
  assumes "allocate H (linesPerJob H n) js (0, numRemainderLines H n) = (bs, fin)"
    and "n = int (length js)" and "n > 0"
  shows "numRemainderLines H n \<le> int (length bs)"
proof (cases "numRemainderLines H n > 0")
  case False
  then have "numRemainderLines H n \<le> 0" by simp
  also have "0 \<le> int (length bs)" by simp
  finally show ?thesis .
next
  case True
  have L2: "linesPerJob H n \<ge> 2" by (rule linesPerJob_ge2)
  have rn: "numRemainderLines H n < n"
    and eq: "H - 1 = linesPerJob H n * n + numRemainderLines H n"
    using remainder_bounds [OF assms(3) True] by blast+
  have fit: "numRemainderLines H n > 0 \<longrightarrow>
      0 + (numRemainderLines H n - 1) * (linesPerJob H n + 1) + 1 < H - 2"
    using first_remainder_fit [OF L2 True rn eq] by blast
  have le: "numRemainderLines H n \<le> int (length js)" using rn assms(2) by linarith
  have L0: "0 \<le> linesPerJob H n" using L2 by linarith
  show ?thesis using allocate_reaches [OF assms(1) L0 le fit] .
qed

section \<open>Render order\<close>

lemma keyed_ProcessLog: "keyed (jobs s) \<Longrightarrow> keyed (jobs (fst (ProcessLog svc l s)))"
  by (auto simp add: keyed_def ProcessLog_def Let_def split: option.splits if_splits)

lemma keyed_FailJob: "keyed (jobs s) \<Longrightarrow> keyed (jobs (fst (FailJob svc e s)))"
proof -
  assume k: "keyed (jobs s)"
  obtain s1 out where p: "ProcessLog svc (str ''Error! '' @ e) s = (s1, out)"
    by (cases "ProcessLog svc (str ''Error! '' @ e) s")
  then have "keyed (jobs s1)" using keyed_ProcessLog [OF k, of svc "str ''Error! '' @ e"] by simp
  then show ?thesis using p
    by (cases out) (auto simp add: FailJob_def keyed_def Let_def split: option.splits if_splits)
qed

lemma keyed_step: "keyed (jobs s) \<Longrightarrow> keyed (jobs (fst (step a s)))"
proof (cases a)
  case (EventResize d fault ord ordc)
  assume k: "keyed (jobs s)"
  let ?s = "s\<lparr>screen := (screen s)\<lparr>dims := d\<rparr>\<rparr>"
  have "jobs (fst (redrawScreen fault ord ordc ?s)) = jobs s"
    by (simp add: redrawScreen_jobs)
  then show ?thesis using EventResize k
    by (cases "redrawScreen fault ord ordc ?s") (simp split: outcome.splits)
next
  case (DoFailJob svc e)
  assume "keyed (jobs s)"
  then show ?thesis using DoFailJob by (simp add: keyed_FailJob)
next
  case (DoProcessLog svc l)
  assume "keyed (jobs s)"
  then show ?thesis using DoProcessLog by (simp add: keyed_ProcessLog)
qed (auto simp add: keyed_def StartJob_def SucceedJob_def SetPushing_def
       redrawScreen_jobs Close_jobs Let_def split: option.splits if_splits)

lemma keyed_run: "keyed (jobs s) \<Longrightarrow> keyed (jobs (fst (run acts s)))"
proof (induction acts arbitrary: s)
  case Nil then show ?case by simp
next
  case (Cons a acts)
  obtain s1 out where st: "step a s = (s1, out)" by (cases "step a s")
  have k1: "keyed (jobs s1)" using keyed_step [OF Cons.prems, of a] st by simp
  show ?case using st k1 Cons.IH [OF k1] by (cases out) simp_all
qed

lemma keyed_New: "keyed (jobs (NewInteractiveInterface d))"
  by (simp add: keyed_def NewInteractiveInterface_def)

lemma services_of_bucket:
  "keyed js \<Longrightarrow>
   map service (filter P (List.map_filter js ord))
     = filter (\<lambda>k. \<exists>job. js k = Some job \<and> P job) ord"
proof (induction ord)
  case Nil show ?case by (simp add: map_filter_simps)
next
  case (Cons k ks)
  show ?case
  proof (cases "js k")
    case None
    then show ?thesis using Cons by (simp add: map_filter_simps)
  next
    case (Some job)
    then have "service job = k" using Cons.prems by (simp add: keyed_def)
    then show ?thesis using Some Cons by (simp add: map_filter_simps)
  qed
qed

lemma sortJobs_services:
  assumes "distinct (map service xs)"
  shows "map service (sortJobs xs) = sorted_list_of_set (set (map service xs))"
proof -
  let ?ys = "map service (sortJobs xs)"
  have so: "sorted ?ys" by (simp add: sortJobs_def)
  have "mset (sortJobs xs) = mset xs" by (simp add: sortJobs_def)
  then have ms: "mset ?ys = mset (map service xs)" by (metis mset_map)
  then have di: "distinct ?ys" using assms by (metis mset_eq_imp_distinct_iff)
  have se: "set ?ys = set (map service xs)" using ms by (metis set_mset_mset)
  have "sorted_list_of_set (set ?ys) = ?ys"
    using so di by (rule sorted_list_of_set.idem_if_sorted_distinct)
  then show ?thesis using se by simp
qed

lemma bucket_sorted_by_key:
  assumes "keyed js" and "rangeOrder js ord"
  shows "map service (sortJobs (filter P (List.map_filter js ord)))
     = sorted_list_of_set {k. \<exists>job. js k = Some job \<and> P job}"
proof -
  let ?xs = "filter P (List.map_filter js ord)"
  have m: "map service ?xs = filter (\<lambda>k. \<exists>job. js k = Some job \<and> P job) ord"
    using services_of_bucket [OF assms(1)] .
  have d: "distinct (map service ?xs)" unfolding m using assms(2) by (simp add: rangeOrder_def)
  have "set (map service ?xs) = {k. \<exists>job. js k = Some job \<and> P job}"
    unfolding m using assms(2) by (auto simp add: rangeOrder_def)
  then show ?thesis using sortJobs_services [OF d] by simp
qed


lemma frame_layout:
  "layoutJobs h f c = (fb, cb) \<Longrightarrow>
   frame h sty s f c =
     concat (map (blockRows failedHeader (Foreground sty (NewRGBColor 190 0 0)) sty) fb)
     @ concat (map (blockRows currHeader (Foreground sty (NewRGBColor 190 190 0)) sty) cb)
     @ [(h - 1, summaryLine (length f) (length s) (length c),
         Foreground sty (NewRGBColor 190 190 190))]"
  by (simp add: frame_def Let_def)

text \<open>
  Claim C7. Take a state the dashboard reaches, any order of the \<^verbatim>\<open>range\<close>, and the sorted
  buckets \<open>f\<close> (failed) and \<open>c\<close> (building) of a pass, \<open>n > 0\<close> jobs together; let \<open>fb\<close> and \<open>cb\<close>
  be what the two job loops lay out for a terminal of height \<open>H\<close>. Then \<open>f\<close> and \<open>c\<close> hold the
  failed and the building jobs in ascending order of their keys; \<^verbatim>\<open>linesPerJob\<close> is
  \<open>(H - 1) div n\<close> rounded down, but at least 2, and \<^verbatim>\<open>numRemainderLines\<close> is
  \<open>(H - 1) - linesPerJob * n\<close>; the jobs laid out are an initial part of \<open>f\<close> followed, only
  when \<open>f\<close> is exhausted, by an initial part of \<open>c\<close>; the job at position \<open>i\<close> of that order
  is given \<open>linesPerJob - 1\<close> log lines and one more exactly when \<open>i < numRemainderLines\<close>; and
  every position below \<^verbatim>\<open>numRemainderLines\<close> is laid out, so the whole remainder is handed
  out, one line each, to the first jobs in render order.
\<close>

theorem layout_hands_out_remainder:
  assumes "run acts (NewInteractiveInterface d) = (iface, Returned)"
    and "rangeOrder (jobs iface) ord"
    and "buckets (jobs iface) ord = (s, f, c)"
    and "n = int (length f) + int (length c)" and "n > 0"
    and "layoutJobs H f c = (fb, cb)"
  shows "map service f
           = sorted_list_of_set {k. \<exists>job. jobs iface k = Some job \<and> status job = str ''failed''}
       \<and> map service c
           = sorted_list_of_set {k. \<exists>job. jobs iface k = Some job \<and> status job \<noteq> str ''succeeded''
                                       \<and> status job \<noteq> str ''failed''}
       \<and> linesPerJob H n = max 2 ((H - 1) div n)
       \<and> numRemainderLines H n = (H - 1) - linesPerJob H n * n
       \<and> map fst fb = take (length fb) f
       \<and> map fst cb = take (length cb) c
       \<and> (cb \<noteq> [] \<longrightarrow> length fb = length f)
       \<and> (\<forall>i < length (fb @ cb).
             snd (snd ((fb @ cb) ! i))
               = linesPerJob H n - 1 + (if int i < numRemainderLines H n then 1 else 0))
       \<and> (\<forall>i. int i < numRemainderLines H n \<longrightarrow> i < length (fb @ cb))"
proof -
  let ?js = "jobs iface"
  let ?J = "List.map_filter ?js ord"
  have k: "keyed ?js"
    using keyed_run [OF keyed_New, of acts d] assms(1) by simp
  have ne: "str ''failed'' \<noteq> str ''succeeded''" by (simp add: str_def)
  have f: "f = sortJobs (filter (\<lambda>j. status j \<noteq> str ''succeeded'' \<and> status j = str ''failed'') ?J)"
    and c: "c = sortJobs (filter (\<lambda>j. status j \<noteq> str ''succeeded'' \<and> status j \<noteq> str ''failed'') ?J)"
    using assms(3) by (simp_all add: buckets_def classify_eq [of ?js ord "[]" "[]" "[]"])
  have "map service f = sorted_list_of_set
          {k. \<exists>job. ?js k = Some job \<and> (status job \<noteq> str ''succeeded'' \<and> status job = str ''failed'')}"
    unfolding f by (rule bucket_sorted_by_key [OF k assms(2)])
  moreover have "{k. \<exists>job. ?js k = Some job \<and> (status job \<noteq> str ''succeeded'' \<and> status job = str ''failed'')}
      = {k. \<exists>job. ?js k = Some job \<and> status job = str ''failed''}" using ne by auto
  ultimately have 1: "map service f
      = sorted_list_of_set {k. \<exists>job. ?js k = Some job \<and> status job = str ''failed''}" by simp
  have 2: "map service c
      = sorted_list_of_set {k. \<exists>job. ?js k = Some job \<and> status job \<noteq> str ''succeeded''
                                       \<and> status job \<noteq> str ''failed''}"
    unfolding c by (rule bucket_sorted_by_key [OF k assms(2)])
  have 3: "linesPerJob H n = max 2 ((H - 1) div n)" by (rule linesPerJob_floor [OF assms(5)])
  have 4: "numRemainderLines H n = (H - 1) - linesPerJob H n * n" by (simp add: numRemainderLines_def)
  note lb = layoutJobs_blocks [OF assms(6) assms(4)]
  obtain fin where al: "allocate H (linesPerJob H n) (f @ c) (0, numRemainderLines H n) = (fb @ cb, fin)"
    using lb(1) by blast
  have 8: "\<forall>i < length (fb @ cb).
             snd (snd ((fb @ cb) ! i))
               = linesPerJob H n - 1 + (if int i < numRemainderLines H n then 1 else 0)"
    using allocate_shape [OF al] by (rule conjunct2)
  have nl: "n = int (length (f @ c))" using assms(4) by simp
  have "numRemainderLines H n \<le> int (length (fb @ cb))"
    by (rule layout_first_remainder_jobs [OF al nl assms(5)])
  then have 9: "\<forall>i. int i < numRemainderLines H n \<longrightarrow> i < length (fb @ cb)" by auto
  show ?thesis using 1 2 3 4 lb(2) lb(3) lb(4) 8 9 by (intro conjI)
qed


theorem layout_hands_out_remainder_witness:
  "snd (run [DoStartJob (str ''A'') (str ''imgA''), DoStartJob (str ''B'') (str ''imgB''),
        DoStartJob (str ''C'') (str ''imgC''), DoStartJob (str ''D'') (str ''imgD''),
        DoFailJob (str ''A'') (str ''boom''), DoSucceedJob (str ''B'')]
     (NewInteractiveInterface (80, 12))) = Returned
   \<and> rangeOrder (jobs (fst (run [DoStartJob (str ''A'') (str ''imgA''), DoStartJob (str ''B'') (str ''imgB''),
        DoStartJob (str ''C'') (str ''imgC''), DoStartJob (str ''D'') (str ''imgD''),
        DoFailJob (str ''A'') (str ''boom''), DoSucceedJob (str ''B'')]
     (NewInteractiveInterface (80, 12))))) [str ''D'', str ''B'', str ''A'', str ''C'']
   \<and> linesPerJob 12 3 = 3
   \<and> numRemainderLines 12 3 = 2
   \<and> (case buckets (jobs (fst (run [DoStartJob (str ''A'') (str ''imgA''), DoStartJob (str ''B'') (str ''imgB''),
        DoStartJob (str ''C'') (str ''imgC''), DoStartJob (str ''D'') (str ''imgD''),
        DoFailJob (str ''A'') (str ''boom''), DoSucceedJob (str ''B'')]
     (NewInteractiveInterface (80, 12))))) [str ''D'', str ''B'', str ''A'', str ''C''] of
         (s, f, c) \<Rightarrow>
           (case layoutJobs 12 f c of
              (fb, cb) \<Rightarrow> (map (\<lambda>b. (service (fst b), snd b)) fb,
                           map (\<lambda>b. (service (fst b), snd b)) cb)))
       = ([(str ''A'', 0, 3)], [(str ''C'', 2, 3), (str ''D'', 3, 2)])"
proof -
  let ?s = "fst (run [DoStartJob (str ''A'') (str ''imgA''), DoStartJob (str ''B'') (str ''imgB''),
        DoStartJob (str ''C'') (str ''imgC''), DoStartJob (str ''D'') (str ''imgD''),
        DoFailJob (str ''A'') (str ''boom''), DoSucceedJob (str ''B'')]
     (NewInteractiveInterface (80, 12)))"
  let ?b = "buckets (jobs ?s) [str ''D'', str ''B'', str ''A'', str ''C'']"
  let ?l = "layoutJobs 12 (fst (snd ?b)) (snd (snd ?b))"
  have h1: "run [DoStartJob (str ''A'') (str ''imgA''), DoStartJob (str ''B'') (str ''imgB''),
        DoStartJob (str ''C'') (str ''imgC''), DoStartJob (str ''D'') (str ''imgD''),
        DoFailJob (str ''A'') (str ''boom''), DoSucceedJob (str ''B'')]
     (NewInteractiveInterface (80, 12)) = (?s, Returned)"
    by (simp add: run_defs str_def)
  have h2: "rangeOrder (jobs ?s) [str ''D'', str ''B'', str ''A'', str ''C'']"
    by (auto simp add: rangeOrder_def run_defs str_def)
  have h3: "?b = (fst ?b, fst (snd ?b), snd (snd ?b))" by simp
  have h4: "int (length (fst (snd ?b))) + int (length (snd (snd ?b)))
      = int (length (fst (snd ?b))) + int (length (snd (snd ?b)))" by (rule refl)
  have n3: "int (length (fst (snd ?b))) + int (length (snd (snd ?b))) = 3" by code_simp
  have h5: "int (length (fst (snd ?b))) + int (length (snd (snd ?b))) > 0" unfolding n3 by simp
  have h6: "?l = (fst ?l, snd ?l)" by simp
  note T = layout_hands_out_remainder [OF h1 h2 h3 h4 h5 h6]
  have r: "snd (run [DoStartJob (str ''A'') (str ''imgA''), DoStartJob (str ''B'') (str ''imgB''),
        DoStartJob (str ''C'') (str ''imgC''), DoStartJob (str ''D'') (str ''imgD''),
        DoFailJob (str ''A'') (str ''boom''), DoSucceedJob (str ''B'')]
     (NewInteractiveInterface (80, 12))) = Returned" using h1 by (metis snd_conv)
  have e: "linesPerJob 12 3 = 3 \<and> numRemainderLines 12 3 = 2
   \<and> (case buckets (jobs ?s) [str ''D'', str ''B'', str ''A'', str ''C''] of
         (s, f, c) \<Rightarrow>
           (case layoutJobs 12 f c of
              (fb, cb) \<Rightarrow> (map (\<lambda>b. (service (fst b), snd b)) fb,
                           map (\<lambda>b. (service (fst b), snd b)) cb)))
       = ([(str ''A'', 0, 3)], [(str ''C'', 2, 3), (str ''D'', 3, 2)])"
    by code_simp
  show ?thesis using T r h2 e by blast
qed

end
